theory Spec2Isabelle
  imports Main "HOL-Library.Word"
begin

unbundle bit_operations_syntax

section \<open>The rk3399 chipset power sequencing module (power/rk3399.c)\<close>

subsection \<open>Enumerations and build-time configuration\<close>

text \<open>
  \<open>enum power_state\<close>: the four steady states and the six transitions handled by
  \<open>power_handle_state\<close>.
\<close>

datatype power_state =
    POWER_G3 | POWER_S5 | POWER_S3 | POWER_S0
  | POWER_G3S5 | POWER_S5S3 | POWER_S3S0 | POWER_S0S3 | POWER_S3S5 | POWER_S5G3

text \<open>The power signals named by the input state flag macros.\<close>

datatype power_signal =
    PP1250_S3_PWR_GOOD | PP900_S0_PWR_GOOD | PP5000_PWR_GOOD | SYS_PWR_GOOD
  | AP_PWR_GOOD | SUSPEND_DEASSERTED

text \<open>The GPIOs written by the sequencing tables of the three sequencing versions.\<close>

datatype gpio_signal =
    GPIO_PP900_S3_EN | GPIO_SYS_RST_L | GPIO_PP3300_S3_EN | GPIO_PP1800_S3_EN
  | GPIO_PP1250_S3_EN | GPIO_PP900_S0_EN | GPIO_PP1800_USB_EN | GPIO_PP3300_S0_EN
  | GPIO_AP_CORE_EN | GPIO_PP1800_S0_EN
  | GPIO_PPVAR_LOGIC_EN | GPIO_PP900_AP_EN | GPIO_PP900_PCIE_EN | GPIO_PP900_PMU_EN
  | GPIO_PP900_PLL_EN | GPIO_PP900_USB_EN | GPIO_PP1800_PMU_EN_L | GPIO_LPDDR_PWR_EN
  | GPIO_PP1800_USB_EN_L | GPIO_PP3300_USB_EN_L | GPIO_PP5000_EN
  | GPIO_PP3300_TRACKPAD_EN_L | GPIO_PP1800_LID_EN_L | GPIO_PP1800_SIXAXIS_EN_L
  | GPIO_PP1800_SENSOR_EN_L | GPIO_PPVAR_CLOGIC_EN | GPIO_PP900_DDRPLL_EN
  | GPIO_PP1800_AP_AVDD_EN_L | GPIO_PP1800_S0_EN_L | GPIO_PP3300_S0_EN_L

datatype hook_type =
    HOOK_CHIPSET_STARTUP | HOOK_CHIPSET_RESUME | HOOK_CHIPSET_SUSPEND | HOOK_CHIPSET_SHUTDOWN

text \<open>
  The return codes of the signal waits. \<open>power_handle_state\<close> tests them for being
  non-zero (anything but \<open>EC_SUCCESS\<close>) and for being \<open>EC_ERROR_TIMEOUT\<close>.
\<close>

datatype ec_error_list = EC_SUCCESS | EC_ERROR_UNKNOWN | EC_ERROR_TIMEOUT

text \<open>
  What is fixed when the firmware is built: \<open>CONFIG_CHIPSET_POWER_SEQ_VERSION\<close> and
  the board's numbering of \<open>enum power_signal\<close> (declared by the board, not by this
  module).
\<close>

record config =
  seq_version :: nat
  signal_index :: "power_signal \<Rightarrow> nat"

text \<open>\<open>struct power_seq_op\<close>: three \<open>uint8_t\<close> fields.\<close>

record power_seq_op =
  signal :: gpio_signal
  level :: "8 word"
  delay :: "8 word"

subsection \<open>The machine's state and its surroundings\<close>

text \<open>
  Everything the module does to the outside is logged, in order, as an event.
\<close>

datatype event =
    GpioSet gpio_signal "8 word"
  | Msleep nat
  | Usleep int
  | Udelay int
  | HookNotify hook_type
  | TaskWake
  | DisableSleep
  | EnableSleep
  | HookCallDeferred int
  | ChipsetExitHardOff
  | WaitSignals "32 word"
  | WaitSignalsTimeout "32 word" int
  | Cprints string

text \<open>
  The two static variables of the module (\<open>forcing_shutdown\<close> at file scope,
  \<open>sys_reset_asserted\<close> local to \<open>power_handle_state\<close>), the time in milliseconds
  since some origin, and the log of effects.
\<close>

record world =
  forcing_shutdown :: bool
  sys_reset_asserted :: bool
  now :: nat
  trace :: "event list"

text \<open>
  The surroundings, as functions of time: the aggregated signal mask, the charger's two
  answers, the power button, the outcome and duration of a signal wait started at a given
  time, and the moments at which another task requests a shutdown (by
  \<open>chipset_force_shutdown\<close> or by the deferred \<open>force_shutdown\<close> firing). The two
  boot-time queries do not change.
\<close>

record env =
  signals_at :: "nat \<Rightarrow> 32 word"
  charge_prevent_power_on_at :: "nat \<Rightarrow> int \<Rightarrow> bool"
  charge_want_shutdown_at :: "nat \<Rightarrow> bool"
  power_button_is_pressed_at :: "nat \<Rightarrow> bool"
  wait_signals_at :: "nat \<Rightarrow> 32 word \<Rightarrow> ec_error_list \<times> nat"
  wait_signals_timeout_at :: "nat \<Rightarrow> 32 word \<Rightarrow> int \<Rightarrow> ec_error_list \<times> nat"
  shutdown_request_at :: "nat \<Rightarrow> bool"
  system_jumped_to_this_image :: bool
  reset_flag_ap_off :: bool

subsection \<open>Constants and masks\<close>

text \<open>
  \<open>MSEC\<close> and \<open>SECOND\<close> are the timer header's counts of microseconds.
\<close>

definition MSEC :: int where
  "MSEC = 1000"

definition SECOND :: int where
  "SECOND = 1000000"

text \<open>
  Modelled from the spec: \<open>POWER_SIGNAL_MASK\<close> is declared by the common power
  header, which is not part of this module; the specification gives the signal mask as a
  bitset over the named feedback lines, here the bit at the board's index of the signal in
  a 32-bit mask.
\<close>

definition POWER_SIGNAL_MASK :: "config \<Rightarrow> power_signal \<Rightarrow> 32 word" where
  "POWER_SIGNAL_MASK cfg s = push_bit (signal_index cfg s) 1"

definition IN_PGOOD_PP1250_S3 :: "config \<Rightarrow> 32 word" where
  "IN_PGOOD_PP1250_S3 cfg = POWER_SIGNAL_MASK cfg PP1250_S3_PWR_GOOD"

definition IN_PGOOD_PP900_S0 :: "config \<Rightarrow> 32 word" where
  "IN_PGOOD_PP900_S0 cfg = POWER_SIGNAL_MASK cfg PP900_S0_PWR_GOOD"

definition IN_PGOOD_PP5000 :: "config \<Rightarrow> 32 word" where
  "IN_PGOOD_PP5000 cfg = POWER_SIGNAL_MASK cfg PP5000_PWR_GOOD"

definition IN_PGOOD_SYS :: "config \<Rightarrow> 32 word" where
  "IN_PGOOD_SYS cfg = POWER_SIGNAL_MASK cfg SYS_PWR_GOOD"

definition IN_PGOOD_AP :: "config \<Rightarrow> 32 word" where
  "IN_PGOOD_AP cfg = POWER_SIGNAL_MASK cfg AP_PWR_GOOD"

definition IN_SUSPEND_DEASSERTED :: "config \<Rightarrow> 32 word" where
  "IN_SUSPEND_DEASSERTED cfg = POWER_SIGNAL_MASK cfg SUSPEND_DEASSERTED"

definition IN_PGOOD_S3 :: "config \<Rightarrow> 32 word" where
  "IN_PGOOD_S3 cfg =
     (if seq_version cfg = 2 then IN_PGOOD_PP1250_S3 cfg else IN_PGOOD_PP5000 cfg)"

definition IN_PGOOD_S0 :: "config \<Rightarrow> 32 word" where
  "IN_PGOOD_S0 cfg =
     (if seq_version cfg = 2
      then IN_PGOOD_S3 cfg OR IN_PGOOD_PP900_S0 cfg OR IN_PGOOD_AP cfg
      else IN_PGOOD_S3 cfg OR IN_PGOOD_AP cfg OR IN_PGOOD_SYS cfg)"

definition IN_ALL_S0 :: "config \<Rightarrow> 32 word" where
  "IN_ALL_S0 cfg = IN_PGOOD_S0 cfg OR IN_SUSPEND_DEASSERTED cfg"

definition FORCED_SHUTDOWN_DELAY :: int where
  "FORCED_SHUTDOWN_DELAY = 8 * SECOND"

definition CHARGER_INITIALIZED_DELAY_MS :: nat where
  "CHARGER_INITIALIZED_DELAY_MS = 100"

definition CHARGER_INITIALIZED_TRIES :: int where
  "CHARGER_INITIALIZED_TRIES = 40"

definition SYS_RST_HOLD_US :: int where
  "SYS_RST_HOLD_US = 1 * MSEC"

definition PGOOD_AP_DEBOUNCE_TIMEOUT :: int where
  "PGOOD_AP_DEBOUNCE_TIMEOUT = 100 * MSEC"

definition SLEEP_INTERVAL_MS :: int where
  "SLEEP_INTERVAL_MS = 5"

subsection \<open>The sequencing tables\<close>

abbreviation (input) seq_op :: "gpio_signal \<Rightarrow> 8 word \<Rightarrow> 8 word \<Rightarrow> power_seq_op" where
  "seq_op s l d \<equiv> \<lparr>signal = s, level = l, delay = d\<rparr>"

text \<open>The power sequence for \<open>POWER_S5S3\<close>, handled from the top to the bottom.\<close>

definition s5s3_power_seq :: "config \<Rightarrow> power_seq_op list" where
  "s5s3_power_seq cfg =
     (if seq_version cfg = 2 then
        [seq_op GPIO_PP900_S3_EN 1 2,
         seq_op GPIO_SYS_RST_L 1 0,
         seq_op GPIO_PP3300_S3_EN 1 2,
         seq_op GPIO_PP1800_S3_EN 1 2,
         seq_op GPIO_PP1250_S3_EN 1 2]
      else
        [seq_op GPIO_PPVAR_LOGIC_EN 1 0,
         seq_op GPIO_PP900_AP_EN 1 0,
         seq_op GPIO_PP900_PCIE_EN 1 2] @
        (if seq_version cfg = 0 then
           [seq_op GPIO_PP900_PMU_EN 1 0,
            seq_op GPIO_PP900_PLL_EN 1 0]
         else []) @
        [seq_op GPIO_PP900_USB_EN 1 2,
         seq_op GPIO_SYS_RST_L 0 0,
         seq_op GPIO_PP1800_PMU_EN_L 0 2,
         seq_op GPIO_LPDDR_PWR_EN 1 2,
         seq_op GPIO_PP1800_USB_EN_L 0 2,
         seq_op GPIO_PP3300_USB_EN_L 0 0,
         seq_op GPIO_PP5000_EN 1 0,
         seq_op GPIO_PP3300_TRACKPAD_EN_L 0 1,
         seq_op GPIO_PP1800_LID_EN_L 0 0,
         seq_op GPIO_PP1800_SIXAXIS_EN_L 0 2,
         seq_op GPIO_PP1800_SENSOR_EN_L 0 0])"

text \<open>The power sequence for \<open>POWER_S3S0\<close>.\<close>

definition s3s0_power_seq :: "config \<Rightarrow> power_seq_op list" where
  "s3s0_power_seq cfg =
     (if seq_version cfg = 2 then
        [seq_op GPIO_PP900_S0_EN 1 2,
         seq_op GPIO_PP1800_USB_EN 1 2,
         seq_op GPIO_PP3300_S0_EN 1 2,
         seq_op GPIO_AP_CORE_EN 1 2,
         seq_op GPIO_PP1800_S0_EN 1 0]
      else
        [seq_op GPIO_PPVAR_CLOGIC_EN 1 2,
         seq_op GPIO_PP900_DDRPLL_EN 1 2,
         seq_op GPIO_PP1800_AP_AVDD_EN_L 0 2,
         seq_op GPIO_AP_CORE_EN 1 2,
         seq_op GPIO_PP1800_S0_EN_L 0 2,
         seq_op GPIO_PP3300_S0_EN_L 0 0])"

text \<open>The power sequence for \<open>POWER_S0S3\<close>.\<close>

definition s0s3_power_seq :: "config \<Rightarrow> power_seq_op list" where
  "s0s3_power_seq cfg =
     (if seq_version cfg = 2 then
        [seq_op GPIO_PP1800_S0_EN 0 1,
         seq_op GPIO_AP_CORE_EN 0 20,
         seq_op GPIO_PP3300_S0_EN 0 20,
         seq_op GPIO_PP1800_USB_EN 0 1,
         seq_op GPIO_PP900_S0_EN 0 1]
      else
        [seq_op GPIO_PP3300_S0_EN_L 1 20,
         seq_op GPIO_PP1800_S0_EN_L 1 1,
         seq_op GPIO_AP_CORE_EN 0 20,
         seq_op GPIO_PP1800_AP_AVDD_EN_L 1 1,
         seq_op GPIO_PP900_DDRPLL_EN 0 1,
         seq_op GPIO_PPVAR_CLOGIC_EN 0 0])"

text \<open>The power sequence for \<open>POWER_S3S5\<close>.\<close>

definition s3s5_power_seq :: "config \<Rightarrow> power_seq_op list" where
  "s3s5_power_seq cfg =
     (if seq_version cfg = 2 then
        [seq_op GPIO_PP1250_S3_EN 0 2,
         seq_op GPIO_PP1800_S3_EN 0 2,
         seq_op GPIO_PP3300_S3_EN 0 2,
         seq_op GPIO_PP900_S3_EN 0 0]
      else
        [seq_op GPIO_PP1800_SENSOR_EN_L 1 0,
         seq_op GPIO_PP1800_SIXAXIS_EN_L 1 0,
         seq_op GPIO_PP1800_LID_EN_L 1 0,
         seq_op GPIO_PP3300_TRACKPAD_EN_L 1 0,
         seq_op GPIO_PP5000_EN 0 0,
         seq_op GPIO_PP3300_USB_EN_L 1 20,
         seq_op GPIO_PP1800_USB_EN_L 1 10,
         seq_op GPIO_LPDDR_PWR_EN 0 20,
         seq_op GPIO_PP1800_PMU_EN_L 1 2] @
        (if seq_version cfg = 0 then
           [seq_op GPIO_PP900_PLL_EN 0 0,
            seq_op GPIO_PP900_PMU_EN 0 0]
         else []) @
        [seq_op GPIO_PP900_USB_EN 0 6,
         seq_op GPIO_PP900_PCIE_EN 0 0,
         seq_op GPIO_PP900_AP_EN 0 0,
         seq_op GPIO_PPVAR_LOGIC_EN 0 0])"

subsection \<open>Primitives of the platform\<close>

definition log_event :: "event \<Rightarrow> world \<Rightarrow> world" where
  "log_event ev w = w\<lparr>trace := trace w @ [ev]\<rparr>"

text \<open>
  While the chipset task is suspended for \<open>n\<close> milliseconds the other tasks run: a
  shutdown requested by one of them in that interval sets \<open>forcing_shutdown\<close>.
\<close>

definition pass_time :: "env \<Rightarrow> nat \<Rightarrow> world \<Rightarrow> world" where
  "pass_time e n w =
     w\<lparr>forcing_shutdown :=
         forcing_shutdown w \<or> list_ex (shutdown_request_at e) [Suc (now w) ..< Suc (now w + n)],
       now := now w + n\<rparr>"

definition msleep :: "env \<Rightarrow> nat \<Rightarrow> world \<Rightarrow> world" where
  "msleep e n w = pass_time e n (log_event (Msleep n) w)"

definition gpio_set_level :: "gpio_signal \<Rightarrow> 8 word \<Rightarrow> world \<Rightarrow> world" where
  "gpio_set_level s l w = log_event (GpioSet s l) w"

definition power_get_signals :: "env \<Rightarrow> world \<Rightarrow> 32 word" where
  "power_get_signals e w = signals_at e (now w)"

text \<open>
  Modelled from the spec: \<open>power_has_signals\<close> is defined by the common power code,
  which is not part of this module; the specification gives it as the snapshot test
  \<open>has(mask)\<close> on the current mask.
\<close>

definition power_has_signals :: "env \<Rightarrow> world \<Rightarrow> 32 word \<Rightarrow> bool" where
  "power_has_signals e w want = (power_get_signals e w AND want = want)"

text \<open>
  The two blocking waits are defined by the common power code as well. Their outcome and
  their duration are taken from the surroundings; the call is logged with its arguments.
\<close>

definition power_wait_signals :: "env \<Rightarrow> 32 word \<Rightarrow> world \<Rightarrow> ec_error_list \<times> world" where
  "power_wait_signals e want w =
     (case wait_signals_at e (now w) want of
        (rc, dt) \<Rightarrow> (rc, pass_time e dt (log_event (WaitSignals want) w)))"

definition power_wait_signals_timeout ::
    "env \<Rightarrow> 32 word \<Rightarrow> int \<Rightarrow> world \<Rightarrow> ec_error_list \<times> world" where
  "power_wait_signals_timeout e want timeout w =
     (case wait_signals_timeout_at e (now w) want timeout of
        (rc, dt) \<Rightarrow> (rc, pass_time e dt (log_event (WaitSignalsTimeout want timeout) w)))"

definition charge_prevent_power_on :: "env \<Rightarrow> int \<Rightarrow> world \<Rightarrow> bool" where
  "charge_prevent_power_on e power_button_pressed w =
     charge_prevent_power_on_at e (now w) power_button_pressed"

definition charge_want_shutdown :: "env \<Rightarrow> world \<Rightarrow> bool" where
  "charge_want_shutdown e w = charge_want_shutdown_at e (now w)"

definition power_button_is_pressed :: "env \<Rightarrow> world \<Rightarrow> bool" where
  "power_button_is_pressed e w = power_button_is_pressed_at e (now w)"

subsection \<open>Entry points other than the state handler\<close>

definition chipset_force_shutdown :: "world \<Rightarrow> world" where
  "chipset_force_shutdown w =
     log_event TaskWake
       ((log_event (Cprints ''chipset_force_shutdown()'') w)\<lparr>forcing_shutdown := True\<rparr>)"

text \<open>
  A signed integer as \<open>%d\<close> prints it.
\<close>

function decimal_nat :: "nat \<Rightarrow> string" where
  "decimal_nat n =
     (if n < 10 then [''0123456789'' ! n]
      else decimal_nat (n div 10) @ [''0123456789'' ! (n mod 10)])"
  by pat_completeness auto
termination
  by (relation "measure (\<lambda>n. n)") auto

definition decimal :: "int \<Rightarrow> string" where
  "decimal i = (if i < 0 then ''-'' @ decimal_nat (nat (- i)) else decimal_nat (nat i))"

text \<open>
  \<open>chipset_reset\<close> prints its name and argument (\<open>CPRINTS("%s(%d)", __func__,
  cold_reset)\<close>) and pulses \<open>SYS_RST_L\<close> for \<open>SYS_RST_HOLD_US\<close>, one millisecond:
  with \<open>udelay\<close>, busy-waiting, in interrupt context, and with \<open>usleep\<close>, letting
  the other tasks run, otherwise. (The print of the RTC under \<open>CONFIG_CMD_RTC\<close> is
  left out.)
\<close>

definition chipset_reset :: "env \<Rightarrow> bool \<Rightarrow> int \<Rightarrow> world \<Rightarrow> world" where
  "chipset_reset e in_interrupt_context cold_reset w =
     (let w1 = log_event (Cprints (''chipset_reset('' @ decimal cold_reset @ '')'')) w;
          w2 = gpio_set_level GPIO_SYS_RST_L 0 w1;
          w3 = (if in_interrupt_context
                then (log_event (Udelay SYS_RST_HOLD_US) w2)\<lparr>now := now w2 + 1\<rparr>
                else pass_time e 1 (log_event (Usleep SYS_RST_HOLD_US) w2))
      in gpio_set_level GPIO_SYS_RST_L 1 w3)"

definition disable_sleep :: "world \<Rightarrow> world" where
  "disable_sleep w = log_event DisableSleep w"

definition enable_sleep :: "world \<Rightarrow> world" where
  "enable_sleep w = log_event EnableSleep w"

definition hook_notify :: "hook_type \<Rightarrow> world \<Rightarrow> world" where
  "hook_notify h w = log_event (HookNotify h) w"

definition hook_call_deferred :: "int \<Rightarrow> world \<Rightarrow> world" where
  "hook_call_deferred delay_us w = log_event (HookCallDeferred delay_us) w"

definition chipset_exit_hard_off :: "world \<Rightarrow> world" where
  "chipset_exit_hard_off w = log_event ChipsetExitHardOff w"

definition cprints :: "string \<Rightarrow> world \<Rightarrow> world" where
  "cprints msg w = log_event (Cprints msg) w"

definition power_chipset_init :: "config \<Rightarrow> env \<Rightarrow> world \<Rightarrow> power_state \<times> world" where
  "power_chipset_init cfg e w =
     (if system_jumped_to_this_image e then
        (if power_get_signals e w AND IN_ALL_S0 cfg = IN_ALL_S0 cfg
         then (POWER_S0, cprints ''already in S0'' (disable_sleep w))
         else (POWER_G3, w))
      else if \<not> reset_flag_ap_off e then (POWER_G3, chipset_exit_hard_off w)
      else (POWER_G3, w))"

definition force_shutdown :: "world \<Rightarrow> world" where
  "force_shutdown w = log_event TaskWake (w\<lparr>forcing_shutdown := True\<rparr>)"

text \<open>
  The two hooks. Whether the chipset is in one of the off states is kept by the common
  power code and is an argument here.
\<close>

definition power_button_changed :: "env \<Rightarrow> bool \<Rightarrow> world \<Rightarrow> world" where
  "power_button_changed e chipset_any_off w =
     (if power_button_is_pressed e w then
        hook_call_deferred FORCED_SHUTDOWN_DELAY
          (if chipset_any_off then chipset_exit_hard_off w else w)
      else hook_call_deferred (- 1) w)"

definition lid_changed :: "bool \<Rightarrow> bool \<Rightarrow> world \<Rightarrow> world" where
  "lid_changed lid_is_open chipset_any_off w =
     (if lid_is_open \<and> chipset_any_off then chipset_exit_hard_off w else w)"

subsection \<open>The sequence executor\<close>

text \<open>
  \<open>MSLEEP_CHECK_ABORTED_SUSPEND(msec)\<close>: the do-while loop over \<open>sleep_remain\<close>. The
  result is \<open>True\<close> where the macro returns \<open>POWER_S3S0\<close> from the enclosing function
  and \<open>False\<close> where control falls out of the loop. The macro is only used with a
  positive delay (20, or a table delay that is not zero), so \<open>msleep\<close> gets a positive
  argument.
\<close>

function MSLEEP_CHECK_ABORTED_SUSPEND ::
    "config \<Rightarrow> env \<Rightarrow> int \<Rightarrow> world \<Rightarrow> bool \<times> world" where
  "MSLEEP_CHECK_ABORTED_SUSPEND cfg e sleep_remain w =
     (let w1 = msleep e (nat (min sleep_remain SLEEP_INTERVAL_MS)) w;
          sleep_remain' = sleep_remain - SLEEP_INTERVAL_MS
      in if \<not> forcing_shutdown w1 \<and>
            power_get_signals e w1 AND IN_SUSPEND_DEASSERTED cfg \<noteq> 0
         then (True, cprints ''suspend aborted'' w1)
         else if sleep_remain' > 0
         then MSLEEP_CHECK_ABORTED_SUSPEND cfg e sleep_remain' w1
         else (False, w1))"
  by pat_completeness auto
termination
  by (relation "measure (\<lambda>(cfg, e, sleep_remain, w). nat sleep_remain)")
     (auto simp: SLEEP_INTERVAL_MS_def)

text \<open>
  \<open>power_seq_run\<close> walks the table from index 0 to \<open>op_count - 1\<close>; the callers pass
  \<open>ARRAY_SIZE\<close> of the table, so the walk is over the whole list. The pointer
  comparison \<open>power_seq_ops == s0s3_power_seq\<close> is the argument \<open>is_s0s3\<close>. The
  result is \<open>True\<close> for the non-zero return (\<open>POWER_S3S0\<close>, which is asserted to be
  non-zero) and \<open>False\<close> for 0.
\<close>

fun power_seq_run ::
    "config \<Rightarrow> env \<Rightarrow> bool \<Rightarrow> power_seq_op list \<Rightarrow> world \<Rightarrow> bool \<times> world" where
  "power_seq_run cfg e is_s0s3 [] w = (False, w)"
| "power_seq_run cfg e is_s0s3 (op # ops) w =
     (let w1 = gpio_set_level (signal op) (level op) w
      in if delay op = 0 then power_seq_run cfg e is_s0s3 ops w1
         else if is_s0s3 then
           (case MSLEEP_CHECK_ABORTED_SUSPEND cfg e (uint (delay op)) w1 of
              (True, w2) \<Rightarrow> (True, w2)
            | (False, w2) \<Rightarrow> power_seq_run cfg e is_s0s3 ops w2)
         else power_seq_run cfg e is_s0s3 ops (msleep e (unat (delay op)) w1))"

subsection \<open>The state handler\<close>

text \<open>
  The charger loop of \<open>POWER_G3S5\<close>:
  \<open>while (charge_prevent_power_on(0) && tries++ < CHARGER_INITIALIZED_TRIES) msleep(...)\<close>.
  The increment happens whenever the left operand holds, also when the comparison then
  fails. The result is the value of \<open>tries\<close> after the loop.
\<close>

function charger_wait :: "env \<Rightarrow> int \<Rightarrow> world \<Rightarrow> int \<times> world" where
  "charger_wait e tries w =
     (if charge_prevent_power_on e 0 w then
        (if tries < CHARGER_INITIALIZED_TRIES
         then charger_wait e (tries + 1) (msleep e CHARGER_INITIALIZED_DELAY_MS w)
         else (tries + 1, w))
      else (tries, w))"
  by pat_completeness auto
termination
  by (relation "measure (\<lambda>(e, tries, w). nat (CHARGER_INITIALIZED_TRIES - tries))") auto

fun power_handle_state :: "config \<Rightarrow> env \<Rightarrow> power_state \<Rightarrow> world \<Rightarrow> power_state \<times> world" where
  "power_handle_state cfg e POWER_G3 w = (POWER_G3, w)"
| "power_handle_state cfg e POWER_S5 w =
     (if forcing_shutdown w then (POWER_S5G3, w) else (POWER_S5S3, w))"
| "power_handle_state cfg e POWER_S3 w =
     (if \<not> power_has_signals e w (IN_PGOOD_S3 cfg) \<or> forcing_shutdown w
      then (POWER_S3S5, w)
      else if power_get_signals e w AND IN_SUSPEND_DEASSERTED cfg \<noteq> 0
      then (POWER_S3S0, w)
      else (POWER_S3, w))"
| "power_handle_state cfg e POWER_S0 w =
     (if \<not> power_has_signals e w (IN_PGOOD_S3 cfg) \<or> forcing_shutdown w \<or>
         \<not> (power_get_signals e w AND IN_SUSPEND_DEASSERTED cfg \<noteq> 0)
      then (POWER_S0S3, w)
      else if seq_version cfg \<noteq> 2 then
        (case power_wait_signals_timeout e (IN_PGOOD_AP cfg OR IN_PGOOD_SYS cfg)
                PGOOD_AP_DEBOUNCE_TIMEOUT w of
           (rc, w1) \<Rightarrow>
             if rc = EC_ERROR_TIMEOUT then (POWER_S0S3, w1)
             else if \<not> power_has_signals e w1 (IN_PGOOD_S3 cfg) \<or> forcing_shutdown w1 \<or>
                     \<not> (power_get_signals e w1 AND IN_SUSPEND_DEASSERTED cfg \<noteq> 0)
             then (POWER_S0S3, w1)
             else (POWER_S0, w1))
      else (POWER_S0, w))"
| "power_handle_state cfg e POWER_G3S5 w =
     (let w1 = w\<lparr>forcing_shutdown := False\<rparr>
      in case charger_wait e 0 w1 of
           (tries, w2) \<Rightarrow>
             if charge_want_shutdown e w2 \<or> tries > CHARGER_INITIALIZED_TRIES
             then (POWER_G3, chipset_force_shutdown (cprints ''power-up inhibited'' w2))
             else (POWER_S5, w2))"
| "power_handle_state cfg e POWER_S5S3 w =
     (let w1 = snd (power_seq_run cfg e False (s5s3_power_seq cfg) w);
          w2 = w1\<lparr>sys_reset_asserted := True\<rparr>
      in case power_wait_signals e (IN_PGOOD_S3 cfg) w2 of
           (rc, w3) \<Rightarrow>
             if rc \<noteq> EC_SUCCESS then (POWER_S3S5, chipset_force_shutdown w3)
             else (POWER_S3, hook_notify HOOK_CHIPSET_STARTUP w3))"
| "power_handle_state cfg e POWER_S3S0 w =
     (let w1 = snd (power_seq_run cfg e False (s3s0_power_seq cfg) w);
          w2 = (if sys_reset_asserted w1
                then (gpio_set_level GPIO_SYS_RST_L 1 (msleep e 10 w1))
                       \<lparr>sys_reset_asserted := False\<rparr>
                else w1)
      in case power_wait_signals e (IN_PGOOD_S0 cfg) w2 of
           (rc, w3) \<Rightarrow>
             if rc \<noteq> EC_SUCCESS then (POWER_S3S0, chipset_force_shutdown w3)
             else (POWER_S0, disable_sleep (hook_notify HOOK_CHIPSET_RESUME w3)))"
| "power_handle_state cfg e POWER_S0S3 w =
     (let w1 = hook_notify HOOK_CHIPSET_SUSPEND w
      in case MSLEEP_CHECK_ABORTED_SUSPEND cfg e 20 w1 of
           (True, w2) \<Rightarrow> (POWER_S3S0, w2)
         | (False, w2) \<Rightarrow>
             (case power_seq_run cfg e True (s0s3_power_seq cfg) w2 of
                (True, w3) \<Rightarrow> (POWER_S3S0, w3)
              | (False, w3) \<Rightarrow>
                  (let w4 = enable_sleep w3
                   in if power_button_is_pressed e w4
                      then (POWER_S3, hook_call_deferred (- 1) (w4\<lparr>forcing_shutdown := True\<rparr>))
                      else (POWER_S3, w4))))"
| "power_handle_state cfg e POWER_S3S5 w =
     (let w1 = hook_notify HOOK_CHIPSET_SHUTDOWN w
      in (POWER_S5, snd (power_seq_run cfg e False (s3s5_power_seq cfg) w1)))"
| "power_handle_state cfg e POWER_S5G3 w = (POWER_G3, w)"

subsection \<open>Observations on runs\<close>

text \<open>The rail writes of a log, in the order they were made.\<close>

fun gpio_writes :: "event list \<Rightarrow> (gpio_signal \<times> 8 word) list" where
  "gpio_writes [] = []"
| "gpio_writes (GpioSet s l # evs) = (s, l) # gpio_writes evs"
| "gpio_writes (ev # evs) = gpio_writes evs"

text \<open>The delays of the calls to \<open>hook_call_deferred\<close> in a log, in order.\<close>

fun deferred_calls :: "event list \<Rightarrow> int list" where
  "deferred_calls [] = []"
| "deferred_calls (HookCallDeferred d # evs) = d # deferred_calls evs"
| "deferred_calls (ev # evs) = deferred_calls evs"

definition op_write :: "power_seq_op \<Rightarrow> gpio_signal \<times> 8 word" where
  "op_write op = (signal op, level op)"

text \<open>
  The condition the suspend-abort check tests after each interval: no forced shutdown,
  and the AP signals that it wants to run.
\<close>

definition run_signal_reasserted :: "config \<Rightarrow> env \<Rightarrow> world \<Rightarrow> bool" where
  "run_signal_reasserted cfg e w =
     (\<not> forcing_shutdown w \<and> power_get_signals e w AND IN_SUSPEND_DEASSERTED cfg \<noteq> 0)"

text \<open>
  The moments at which a delay of \<open>msec\<close> milliseconds is checked: the worlds after each
  interval of at most \<open>SLEEP_INTERVAL_MS\<close>, were the delay slept to its end.
\<close>

function check_points :: "env \<Rightarrow> int \<Rightarrow> world \<Rightarrow> world list" where
  "check_points e sleep_remain w =
     (let w1 = msleep e (nat (min sleep_remain SLEEP_INTERVAL_MS)) w
      in w1 # (if sleep_remain - SLEEP_INTERVAL_MS > 0
               then check_points e (sleep_remain - SLEEP_INTERVAL_MS) w1
               else []))"
  by pat_completeness auto
termination
  by (relation "measure (\<lambda>(e, sleep_remain, w). nat sleep_remain)")
     (auto simp: SLEEP_INTERVAL_MS_def)

text \<open>
  From one world to a later one no shutdown request is lost: time has not gone back, and
  if \<open>forcing_shutdown\<close> was set in the first, or another task requested a shutdown
  between the two, it is set in the second.
\<close>

definition keeps_requests :: "env \<Rightarrow> world \<Rightarrow> world \<Rightarrow> bool" where
  "keeps_requests e w w' =
     (now w \<le> now w' \<and>
      (forcing_shutdown w \<or> list_ex (shutdown_request_at e) [Suc (now w) ..< Suc (now w')]
         \<longrightarrow> forcing_shutdown w'))"

text \<open>
  The chipset task's loop, \<open>n\<close> rounds of it: the states it goes through and the world
  at the end.
\<close>

fun drive :: "config \<Rightarrow> env \<Rightarrow> nat \<Rightarrow> power_state \<Rightarrow> world \<Rightarrow> power_state list \<times> world" where
  "drive cfg e 0 s w = ([s], w)"
| "drive cfg e (Suc n) s w =
     (case power_handle_state cfg e s w of
        (s', w') \<Rightarrow> (case drive cfg e n s' w' of (ss, w'') \<Rightarrow> (s # ss, w'')))"

text \<open>
  What the machine can be in: it starts from \<open>power_chipset_init\<close> with both static
  variables zero, the task applies \<open>power_handle_state\<close>, the common state code leaves
  \<open>POWER_G3\<close> for \<open>POWER_G3S5\<close> on a power-on request, time passes between two rounds,
  and the other entry points of the module are called by other tasks.
\<close>

inductive reachable :: "config \<Rightarrow> power_state \<Rightarrow> world \<Rightarrow> bool" for cfg :: config where
  init: "\<not> forcing_shutdown w \<Longrightarrow> \<not> sys_reset_asserted w \<Longrightarrow>
         power_chipset_init cfg e w = (s, w') \<Longrightarrow> reachable cfg s w'"
| step: "reachable cfg s w \<Longrightarrow> power_handle_state cfg e s w = (s', w') \<Longrightarrow>
         reachable cfg s' w'"
| exit_hard_off: "reachable cfg POWER_G3 w \<Longrightarrow> reachable cfg POWER_G3S5 w"
| idle: "reachable cfg s w \<Longrightarrow> reachable cfg s (pass_time e n w)"
| shutdown_requested: "reachable cfg s w \<Longrightarrow> reachable cfg s (chipset_force_shutdown w)"
| shutdown_deferred: "reachable cfg s w \<Longrightarrow> reachable cfg s (force_shutdown w)"
| reset: "reachable cfg s w \<Longrightarrow> reachable cfg s (chipset_reset e irq cold w)"
| button: "reachable cfg s w \<Longrightarrow> reachable cfg s (power_button_changed e off w)"
| lid: "reachable cfg s w \<Longrightarrow> reachable cfg s (lid_changed is_open off w)"

subsection \<open>Concrete configurations and surroundings\<close>

text \<open>
  Two builds: sequencing version 2 and sequencing version 0, each with a numbering of the
  power signals it uses.
\<close>

definition cfg_v2 :: config where
  "cfg_v2 = \<lparr>seq_version = 2,
             signal_index = (\<lambda>s. case s of
                 PP1250_S3_PWR_GOOD \<Rightarrow> 0 | PP900_S0_PWR_GOOD \<Rightarrow> 1 | AP_PWR_GOOD \<Rightarrow> 2
               | SUSPEND_DEASSERTED \<Rightarrow> 3 | PP5000_PWR_GOOD \<Rightarrow> 4 | SYS_PWR_GOOD \<Rightarrow> 5)\<rparr>"

definition cfg_v0 :: config where
  "cfg_v0 = \<lparr>seq_version = 0,
             signal_index = (\<lambda>s. case s of
                 PP5000_PWR_GOOD \<Rightarrow> 0 | SYS_PWR_GOOD \<Rightarrow> 1 | AP_PWR_GOOD \<Rightarrow> 2
               | SUSPEND_DEASSERTED \<Rightarrow> 3 | PP1250_S3_PWR_GOOD \<Rightarrow> 4 | PP900_S0_PWR_GOOD \<Rightarrow> 5)\<rparr>"

text \<open>
  Surroundings with a given signal mask over time in which the charger allows power-on,
  the power button is released, every wait succeeds at once and no other task requests a
  shutdown.
\<close>

definition calm_env :: "(nat \<Rightarrow> 32 word) \<Rightarrow> env" where
  "calm_env sigs =
     \<lparr>signals_at = sigs,
      charge_prevent_power_on_at = (\<lambda>t b. False),
      charge_want_shutdown_at = (\<lambda>t. False),
      power_button_is_pressed_at = (\<lambda>t. False),
      wait_signals_at = (\<lambda>t m. (EC_SUCCESS, 0)),
      wait_signals_timeout_at = (\<lambda>t m d. (EC_SUCCESS, 0)),
      shutdown_request_at = (\<lambda>t. False),
      system_jumped_to_this_image = False,
      reset_flag_ap_off = False\<rparr>"

definition boot_world :: world where
  "boot_world = \<lparr>forcing_shutdown = False, sys_reset_asserted = False, now = 0, trace = []\<rparr>"

text \<open>
  A signal mask over time, in the numbering of \<open>cfg_v2\<close>: the three power-good lines
  are up all along, and the AP raises its run signal from the moment \<open>t0\<close> on.
\<close>

definition resume_at :: "nat \<Rightarrow> nat \<Rightarrow> 32 word" where
  "resume_at t0 t = (if t < t0 then 7 else 15)"

text \<open>
  Surroundings in which the power-good lines and the run signal are up, with a given
  course of the charger's two answers.
\<close>

definition charger_env :: "(nat \<Rightarrow> bool) \<Rightarrow> (nat \<Rightarrow> bool) \<Rightarrow> env" where
  "charger_env prevent want =
     (calm_env (\<lambda>t. 15))
       \<lparr>charge_prevent_power_on_at := (\<lambda>t b. prevent t),
        charge_want_shutdown_at := want\<rparr>"

text \<open>
  Surroundings with a given signal mask over time in which the timed wait ends with the
  given code after the given number of milliseconds.
\<close>

definition debounce_env :: "(nat \<Rightarrow> 32 word) \<Rightarrow> ec_error_list \<Rightarrow> nat \<Rightarrow> env" where
  "debounce_env sigs rc dt = (calm_env sigs)\<lparr>wait_signals_timeout_at := (\<lambda>t m d. (rc, dt))\<rparr>"

text \<open>
  Surroundings in which the S3 power-good line is up, the AP does not ask to run, and the
  power button is held down.
\<close>

definition button_held_env :: env where
  "button_held_env = (calm_env (\<lambda>t. 7))\<lparr>power_button_is_pressed_at := (\<lambda>t. True)\<rparr>"

text \<open>
  Surroundings in which the power-good lines stay down: every wait for them times out
  after a second.
\<close>

definition pgood_timeout_env :: env where
  "pgood_timeout_env = (calm_env (\<lambda>t. 8))\<lparr>wait_signals_at := (\<lambda>t m. (EC_ERROR_TIMEOUT, 1000))\<rparr>"

text \<open>
  Surroundings in which the charger prevents the power-up until 250 ms have passed and in
  which another task requests a shutdown at the moment \<open>t0\<close>.
\<close>

definition request_env :: "nat \<Rightarrow> env" where
  "request_env t0 =
     (charger_env (\<lambda>t. t < 250) (\<lambda>t. False))\<lparr>shutdown_request_at := (\<lambda>t. t = t0)\<rparr>"

text \<open>
  Surroundings in which the power-good lines and the run signal are up, every wait
  succeeds at once, the charger allows the power-up, and another task requests a shutdown
  at the moment \<open>t0\<close>.
\<close>

definition late_request_env :: "nat \<Rightarrow> env" where
  "late_request_env t0 = (calm_env (\<lambda>t. 15))\<lparr>shutdown_request_at := (\<lambda>t. t = t0)\<rparr>"

section \<open>Properties\<close>

subsection \<open>Effects of the primitives on the state\<close>

lemma log_event_fields [simp]:
  "forcing_shutdown (log_event ev w) = forcing_shutdown w"
  "sys_reset_asserted (log_event ev w) = sys_reset_asserted w"
  "now (log_event ev w) = now w"
  "trace (log_event ev w) = trace w @ [ev]"
  by (simp_all add: log_event_def)

lemma pass_time_fields [simp]:
  "sys_reset_asserted (pass_time e n w) = sys_reset_asserted w"
  "now (pass_time e n w) = now w + n"
  "trace (pass_time e n w) = trace w"
  by (simp_all add: pass_time_def)

lemma pass_time_forcing_shutdown:
  "forcing_shutdown (pass_time e n w) =
     (forcing_shutdown w \<or> (\<exists>t. now w < t \<and> t \<le> now w + n \<and> shutdown_request_at e t))"
  by (auto simp add: pass_time_def list_ex_iff less_Suc_eq_le Suc_le_eq simp del: upt_Suc)

lemma pass_time_keeps_forcing [simp]:
  "forcing_shutdown w \<Longrightarrow> forcing_shutdown (pass_time e n w)"
  by (simp add: pass_time_forcing_shutdown)

lemma msleep_fields [simp]:
  "sys_reset_asserted (msleep e n w) = sys_reset_asserted w"
  "now (msleep e n w) = now w + n"
  "trace (msleep e n w) = trace w @ [Msleep n]"
  by (simp_all add: msleep_def)

lemma msleep_keeps_forcing [simp]:
  "forcing_shutdown w \<Longrightarrow> forcing_shutdown (msleep e n w)"
  by (simp add: msleep_def)

lemma gpio_set_level_fields [simp]:
  "forcing_shutdown (gpio_set_level s l w) = forcing_shutdown w"
  "sys_reset_asserted (gpio_set_level s l w) = sys_reset_asserted w"
  "now (gpio_set_level s l w) = now w"
  "trace (gpio_set_level s l w) = trace w @ [GpioSet s l]"
  by (simp_all add: gpio_set_level_def)

lemma gpio_writes_append [simp]:
  "gpio_writes (xs @ ys) = gpio_writes xs @ gpio_writes ys"
  by (induction xs rule: gpio_writes.induct) simp_all

declare MSLEEP_CHECK_ABORTED_SUSPEND.simps [simp del]

lemma msleep_check_writes:
  "gpio_writes (trace (snd (MSLEEP_CHECK_ABORTED_SUSPEND cfg e r w))) = gpio_writes (trace w)"
proof (induction cfg e r w rule: MSLEEP_CHECK_ABORTED_SUSPEND.induct)
  case (1 cfg e r w)
  show ?case
    using "1.IH" [OF refl refl]
    by (subst MSLEEP_CHECK_ABORTED_SUSPEND.simps) (simp add: Let_def cprints_def)
qed

lemma power_seq_run_writes:
  "power_seq_run cfg e b ops w = (False, w') \<Longrightarrow>
   gpio_writes (trace w') = gpio_writes (trace w) @ map op_write ops"
proof (induction ops arbitrary: w)
  case Nil
  then show ?case by simp
next
  case (Cons op ops)
  show ?case
  proof (cases "delay op = 0")
    case True
    with Cons.prems have "power_seq_run cfg e b ops (gpio_set_level (signal op) (level op) w) = (False, w')"
      by simp
    from Cons.IH [OF this] show ?thesis by (simp add: op_write_def)
  next
    case False
    show ?thesis
    proof (cases b)
      case True
      obtain a w2 where m: "MSLEEP_CHECK_ABORTED_SUSPEND cfg e (uint (delay op))
          (gpio_set_level (signal op) (level op) w) = (a, w2)"
        by (cases "MSLEEP_CHECK_ABORTED_SUSPEND cfg e (uint (delay op))
          (gpio_set_level (signal op) (level op) w)") 
      with Cons.prems False True have na: "\<not> a" and r: "power_seq_run cfg e b ops w2 = (False, w')"
        by (auto simp: Let_def split: if_splits bool.splits)
      from msleep_check_writes [of cfg e "uint (delay op)" "gpio_set_level (signal op) (level op) w"] m
      have "gpio_writes (trace w2) = gpio_writes (trace w) @ [op_write op]"
        by (simp add: op_write_def)
      with Cons.IH [OF r] show ?thesis by simp
    next
      case b: False
      with Cons.prems False have "power_seq_run cfg e b ops
          (msleep e (unat (delay op)) (gpio_set_level (signal op) (level op) w)) = (False, w')"
        by simp
      from Cons.IH [OF this] show ?thesis by (simp add: op_write_def)
    qed
  qed
qed

subsection \<open>Steady states under a forced shutdown\<close>

text \<open>
  C1. In each of the steady states S5, S3 and S0, when \<open>forcing_shutdown\<close> is set at the
  call, \<open>power_handle_state\<close> returns the transition that leads down towards G3
  (S5G3, S3S5, S0S3 respectively) and leaves the state untouched; the result is never a
  transition towards S0 (S5S3, S3S0) nor S0 itself.
\<close>

theorem forced_shutdown_heads_to_G3:
  assumes "forcing_shutdown w"
  shows "power_handle_state cfg e POWER_S5 w = (POWER_S5G3, w) \<and>
         power_handle_state cfg e POWER_S3 w = (POWER_S3S5, w) \<and>
         power_handle_state cfg e POWER_S0 w = (POWER_S0S3, w) \<and>
         (\<forall>s \<in> {POWER_S5, POWER_S3, POWER_S0}.
            fst (power_handle_state cfg e s w) \<notin> {POWER_S5S3, POWER_S3S0, POWER_S0})"
  using assms by simp

theorem forced_shutdown_heads_to_G3_witness:
  "forcing_shutdown (boot_world\<lparr>forcing_shutdown := True\<rparr>) \<and>
   fst (power_handle_state cfg_v0 (calm_env (\<lambda>t. 15)) POWER_S0
          (boot_world\<lparr>forcing_shutdown := True\<rparr>)) = POWER_S0S3 \<and>
   fst (power_handle_state cfg_v0 (calm_env (\<lambda>t. 15)) POWER_S3
          (boot_world\<lparr>forcing_shutdown := True\<rparr>)) = POWER_S3S5 \<and>
   fst (power_handle_state cfg_v0 (calm_env (\<lambda>t. 15)) POWER_S5
          (boot_world\<lparr>forcing_shutdown := True\<rparr>)) = POWER_S5G3"
proof -
  have h: "forcing_shutdown (boot_world\<lparr>forcing_shutdown := True\<rparr>)" by simp
  from forced_shutdown_heads_to_G3 [OF h, of cfg_v0 "calm_env (\<lambda>t. 15)"] h
  show ?thesis by simp
qed

subsection \<open>The executor keeps the order of the table\<close>

text \<open>
  C3. For every table, whatever its delays: a run of \<open>power_seq_run\<close> that completes
  (returns 0) has made exactly the table's (rail, level) writes, in the table's order,
  each once. A run on a table other than the S0S3 one always completes.
\<close>

theorem power_seq_run_preserves_order:
  "fst (power_seq_run cfg e False ops w) = False \<and>
   (power_seq_run cfg e is_s0s3 ops w = (False, w') \<longrightarrow>
      gpio_writes (trace w') = gpio_writes (trace w) @ map op_write ops)"
proof
  show "fst (power_seq_run cfg e False ops w) = False"
    by (induction ops arbitrary: w) (simp_all add: Let_def)
  show "power_seq_run cfg e is_s0s3 ops w = (False, w') \<longrightarrow>
      gpio_writes (trace w') = gpio_writes (trace w) @ map op_write ops"
    by (simp add: power_seq_run_writes)
qed

theorem power_seq_run_preserves_order_witness:
  "power_seq_run cfg_v2 (calm_env (\<lambda>t. 7)) True (s0s3_power_seq cfg_v2) boot_world =
     (False, snd (power_seq_run cfg_v2 (calm_env (\<lambda>t. 7)) True (s0s3_power_seq cfg_v2) boot_world)) \<and>
   gpio_writes (trace (snd (power_seq_run cfg_v2 (calm_env (\<lambda>t. 7)) True
                              (s0s3_power_seq cfg_v2) boot_world))) =
     [(GPIO_PP1800_S0_EN, 0), (GPIO_AP_CORE_EN, 0), (GPIO_PP3300_S0_EN, 0),
      (GPIO_PP1800_USB_EN, 0), (GPIO_PP900_S0_EN, 0)]"
proof -
  have c: "fst (power_seq_run cfg_v2 (calm_env (\<lambda>t. 7)) True (s0s3_power_seq cfg_v2) boot_world)
             = False"
    by code_simp
  then have r: "power_seq_run cfg_v2 (calm_env (\<lambda>t. 7)) True (s0s3_power_seq cfg_v2) boot_world =
     (False, snd (power_seq_run cfg_v2 (calm_env (\<lambda>t. 7)) True (s0s3_power_seq cfg_v2) boot_world))"
    by (simp add: prod_eq_iff)
  have t: "s0s3_power_seq cfg_v2 =
     [seq_op GPIO_PP1800_S0_EN 0 1, seq_op GPIO_AP_CORE_EN 0 20, seq_op GPIO_PP3300_S0_EN 0 20,
      seq_op GPIO_PP1800_USB_EN 0 1, seq_op GPIO_PP900_S0_EN 0 1]"
    by (simp add: s0s3_power_seq_def cfg_v2_def)
  from power_seq_run_preserves_order [of cfg_v2 "calm_env (\<lambda>t. 7)" "s0s3_power_seq cfg_v2"
      boot_world True] r
  have "gpio_writes (trace (snd (power_seq_run cfg_v2 (calm_env (\<lambda>t. 7)) True
                              (s0s3_power_seq cfg_v2) boot_world))) =
        gpio_writes (trace boot_world) @ map op_write (s0s3_power_seq cfg_v2)"
    by blast
  then show ?thesis using r by (simp add: t op_write_def boot_world_def)
qed

subsection \<open>The suspend-abort check\<close>

declare check_points.simps [simp del]

lemma check_points_not_Nil [simp]: "check_points e r w \<noteq> []"
  by (subst check_points.simps) (simp add: Let_def)

lemma msleep_check_find:
  "MSLEEP_CHECK_ABORTED_SUSPEND cfg e r w =
     (case find (run_signal_reasserted cfg e) (check_points e r w) of
        Some p \<Rightarrow> (True, cprints ''suspend aborted'' p)
      | None \<Rightarrow> (False, last (check_points e r w)))"
proof (induction cfg e r w rule: MSLEEP_CHECK_ABORTED_SUSPEND.induct)
  case (1 cfg e r w)
  define w1 where "w1 = msleep e (nat (min r SLEEP_INTERVAL_MS)) w"
  have M: "MSLEEP_CHECK_ABORTED_SUSPEND cfg e r w =
      (if run_signal_reasserted cfg e w1 then (True, cprints ''suspend aborted'' w1)
       else if r - SLEEP_INTERVAL_MS > 0
       then MSLEEP_CHECK_ABORTED_SUSPEND cfg e (r - SLEEP_INTERVAL_MS) w1
       else (False, w1))"
    by (subst MSLEEP_CHECK_ABORTED_SUSPEND.simps)
       (simp only: Let_def w1_def run_signal_reasserted_def)
  have C: "check_points e r w =
      w1 # (if r - SLEEP_INTERVAL_MS > 0 then check_points e (r - SLEEP_INTERVAL_MS) w1 else [])"
    by (subst check_points.simps) (simp only: Let_def w1_def)
  show ?case
  proof (cases "run_signal_reasserted cfg e w1")
    case True
    then show ?thesis unfolding M C by simp
  next
    case False
    show ?thesis
    proof (cases "r - SLEEP_INTERVAL_MS > 0")
      case True
      from False have "\<not> (\<not> forcing_shutdown w1 \<and>
          power_get_signals e w1 AND IN_SUSPEND_DEASSERTED cfg \<noteq> 0)"
        by (simp add: run_signal_reasserted_def)
      from "1.IH" [OF w1_def refl this True]
      have "MSLEEP_CHECK_ABORTED_SUSPEND cfg e (r - SLEEP_INTERVAL_MS) w1 =
        (case find (run_signal_reasserted cfg e) (check_points e (r - SLEEP_INTERVAL_MS) w1) of
           None \<Rightarrow> (False, last (check_points e (r - SLEEP_INTERVAL_MS) w1))
         | Some p \<Rightarrow> (True, cprints ''suspend aborted'' p))" .
      with False True show ?thesis unfolding M C by (simp split: option.split)
    next
      case nr: False
      with False show ?thesis unfolding M C by simp
    qed
  qed
qed

lemma msleep_check_detects:
  assumes "\<exists>p \<in> set (check_points e r w). run_signal_reasserted cfg e p"
  shows "MSLEEP_CHECK_ABORTED_SUSPEND cfg e r w =
     (True, cprints ''suspend aborted'' (the (find (run_signal_reasserted cfg e) (check_points e r w))))"
proof -
  from assms obtain p where "find (run_signal_reasserted cfg e) (check_points e r w) = Some p"
    by (cases "find (run_signal_reasserted cfg e) (check_points e r w)") (auto simp: find_None_iff)
  then show ?thesis by (simp add: msleep_check_find)
qed

lemma power_seq_run_append:
  "power_seq_run cfg e b (xs @ ys) w =
     (case power_seq_run cfg e b xs w of
        (True, w1) \<Rightarrow> (True, w1)
      | (False, w1) \<Rightarrow> power_seq_run cfg e b ys w1)"
  by (induction xs arbitrary: w) (auto simp: Let_def split: prod.splits bool.splits)

text \<open>
  C2. Sequencing with the abort check (as for S0S3): suppose the steps before step \<open>i\<close>
  completed, step \<open>i\<close> has a delay, and at one of the checks of that delay
  \<open>forcing_shutdown\<close> is clear and the run signal is asserted. Then the executor
  reports the abort, it stops at the first such check, and the rail writes made are those
  of steps \<open>0..i\<close> and no others. When the table is the S0S3 one and the run follows
  the initial 20 ms window of \<open>POWER_S0S3\<close>, the machine's next state is S3S0, with the
  same rail writes. (The witness is the scenario of the five-step table of version 2 with
  the run signal back during the delay after the second step: exactly two writes.)
\<close>

theorem suspend_abort_stops_sequence:
  assumes i: "i < length ops"
    and d: "delay (ops ! i) \<noteq> 0"
    and pre: "power_seq_run cfg e True (take i ops) w = (False, w1)"
    and det: "\<exists>p \<in> set (check_points e (uint (delay (ops ! i)))
                          (gpio_set_level (signal (ops ! i)) (level (ops ! i)) w1)).
                run_signal_reasserted cfg e p"
  shows "power_seq_run cfg e True ops w =
           (True, cprints ''suspend aborted''
              (the (find (run_signal_reasserted cfg e)
                 (check_points e (uint (delay (ops ! i)))
                    (gpio_set_level (signal (ops ! i)) (level (ops ! i)) w1))))) \<and>
         gpio_writes (trace (snd (power_seq_run cfg e True ops w))) =
           gpio_writes (trace w) @ map op_write (take (Suc i) ops) \<and>
         (\<forall>w0. ops = s0s3_power_seq cfg \<and>
               MSLEEP_CHECK_ABORTED_SUSPEND cfg e 20 (hook_notify HOOK_CHIPSET_SUSPEND w0) =
                 (False, w) \<longrightarrow>
               fst (power_handle_state cfg e POWER_S0S3 w0) = POWER_S3S0 \<and>
               gpio_writes (trace (snd (power_handle_state cfg e POWER_S0S3 w0))) =
                 gpio_writes (trace w0) @ map op_write (take (Suc i) ops))"
proof -
  let ?op = "ops ! i"
  let ?w2 = "gpio_set_level (signal ?op) (level ?op) w1"
  let ?p = "the (find (run_signal_reasserted cfg e) (check_points e (uint (delay ?op)) ?w2))"
  have split: "ops = take i ops @ ?op # drop (Suc i) ops"
    using i by (simp add: id_take_nth_drop)
  have m: "MSLEEP_CHECK_ABORTED_SUSPEND cfg e (uint (delay ?op)) ?w2 =
             (True, cprints ''suspend aborted'' ?p)"
    using det by (rule msleep_check_detects)
  have "power_seq_run cfg e True (take i ops @ ?op # drop (Suc i) ops) w =
          (True, cprints ''suspend aborted'' ?p)"
    using pre d m by (simp add: power_seq_run_append Let_def)
  with split have run: "power_seq_run cfg e True ops w = (True, cprints ''suspend aborted'' ?p)"
    by simp
  have w1: "gpio_writes (trace w1) = gpio_writes (trace w) @ map op_write (take i ops)"
    using pre by (rule power_seq_run_writes)
  have "gpio_writes (trace (snd (MSLEEP_CHECK_ABORTED_SUSPEND cfg e (uint (delay ?op)) ?w2))) =
          gpio_writes (trace ?w2)"
    by (rule msleep_check_writes)
  with m have "gpio_writes (trace (cprints ''suspend aborted'' ?p)) =
                 gpio_writes (trace w1) @ [op_write ?op]"
    by (simp add: op_write_def)
  with w1 i have wr: "gpio_writes (trace (cprints ''suspend aborted'' ?p)) =
                 gpio_writes (trace w) @ map op_write (take (Suc i) ops)"
    by (simp add: take_Suc_conv_app_nth)
  have mach: "fst (power_handle_state cfg e POWER_S0S3 w0) = POWER_S3S0 \<and>
               gpio_writes (trace (snd (power_handle_state cfg e POWER_S0S3 w0))) =
                 gpio_writes (trace w0) @ map op_write (take (Suc i) ops)"
    if t: "ops = s0s3_power_seq cfg"
      and c: "MSLEEP_CHECK_ABORTED_SUSPEND cfg e 20 (hook_notify HOOK_CHIPSET_SUSPEND w0) = (False, w)"
    for w0
  proof -
    have "gpio_writes (trace (snd (MSLEEP_CHECK_ABORTED_SUSPEND cfg e 20
             (hook_notify HOOK_CHIPSET_SUSPEND w0)))) =
          gpio_writes (trace (hook_notify HOOK_CHIPSET_SUSPEND w0))"
      by (rule msleep_check_writes)
    with c have "gpio_writes (trace w) = gpio_writes (trace w0)"
      by (simp add: hook_notify_def)
    with wr run t c show ?thesis
      by (simp add: Let_def)
  qed
  from run wr mach show ?thesis by (simp del: power_handle_state.simps)
qed


theorem suspend_abort_stops_sequence_witness:
  "fst (power_handle_state cfg_v2 (calm_env (resume_at 22)) POWER_S0S3 boot_world) = POWER_S3S0 \<and>
   gpio_writes (trace (snd (power_handle_state cfg_v2 (calm_env (resume_at 22)) POWER_S0S3
                              boot_world))) =
     [(GPIO_PP1800_S0_EN, 0), (GPIO_AP_CORE_EN, 0)] \<and>
   length (s0s3_power_seq cfg_v2) = 5"
proof -
  define e where "e = calm_env (resume_at 22)"
  define w where "w = snd (MSLEEP_CHECK_ABORTED_SUSPEND cfg_v2 e 20
                             (hook_notify HOOK_CHIPSET_SUSPEND boot_world))"
  define w1 where "w1 = snd (power_seq_run cfg_v2 e True (take 1 (s0s3_power_seq cfg_v2)) w)"
  have h1: "1 < length (s0s3_power_seq cfg_v2)"
    by code_simp
  have h2: "delay (s0s3_power_seq cfg_v2 ! 1) \<noteq> 0"
    by code_simp
  have "fst (power_seq_run cfg_v2 e True (take 1 (s0s3_power_seq cfg_v2)) w) = False"
    unfolding w_def e_def by code_simp
  then have h3: "power_seq_run cfg_v2 e True (take 1 (s0s3_power_seq cfg_v2)) w = (False, w1)"
    by (simp add: w1_def prod_eq_iff)
  have h4: "\<exists>p \<in> set (check_points e (uint (delay (s0s3_power_seq cfg_v2 ! 1)))
              (gpio_set_level (signal (s0s3_power_seq cfg_v2 ! 1))
                 (level (s0s3_power_seq cfg_v2 ! 1)) w1)).
              run_signal_reasserted cfg_v2 e p"
    unfolding w1_def w_def e_def by code_simp
  have "fst (MSLEEP_CHECK_ABORTED_SUSPEND cfg_v2 e 20
               (hook_notify HOOK_CHIPSET_SUSPEND boot_world)) = False"
    unfolding e_def by code_simp
  then have h5: "MSLEEP_CHECK_ABORTED_SUSPEND cfg_v2 e 20
               (hook_notify HOOK_CHIPSET_SUSPEND boot_world) = (False, w)"
    by (simp add: w_def prod_eq_iff)
  have t: "map op_write (take (Suc 1) (s0s3_power_seq cfg_v2)) =
             [(GPIO_PP1800_S0_EN, 0), (GPIO_AP_CORE_EN, 0)]"
    by code_simp
  have l: "length (s0s3_power_seq cfg_v2) = 5"
    by code_simp
  from suspend_abort_stops_sequence [OF h1 h2 h3 h4] h5
  have "fst (power_handle_state cfg_v2 e POWER_S0S3 boot_world) = POWER_S3S0 \<and>
        gpio_writes (trace (snd (power_handle_state cfg_v2 e POWER_S0S3 boot_world))) =
          gpio_writes (trace boot_world) @ map op_write (take (Suc 1) (s0s3_power_seq cfg_v2))"
    by blast
  then show ?thesis
    unfolding t e_def using l by (simp add: boot_world_def del: power_handle_state.simps)
qed

subsection \<open>The charger gate of G3S5\<close>

declare charger_wait.simps [simp del]

lemma msleep_funpow_fields [simp]:
  "now ((msleep e n ^^ k) w) = now w + n * k"
  "sys_reset_asserted ((msleep e n ^^ k) w) = sys_reset_asserted w"
  "trace ((msleep e n ^^ k) w) = trace w @ replicate k (Msleep n)"
  by (induction k) (simp_all add: replicate_append_same)

lemma msleep_forcing_shutdown:
  "forcing_shutdown (msleep e n w) =
     (forcing_shutdown w \<or> (\<exists>t. now w < t \<and> t \<le> now w + n \<and> shutdown_request_at e t))"
  by (simp add: msleep_def pass_time_forcing_shutdown)

lemma msleep_funpow_forcing_shutdown:
  "forcing_shutdown ((msleep e n ^^ k) w) =
     (forcing_shutdown w \<or> (\<exists>t. now w < t \<and> t \<le> now w + n * k \<and> shutdown_request_at e t))"
proof (induction k)
  case 0
  then show ?case by auto
next
  case (Suc k)
  let ?m = "now w + n * k"
  have "((\<exists>t. now w < t \<and> t \<le> ?m \<and> shutdown_request_at e t) \<or>
         (\<exists>t. ?m < t \<and> t \<le> ?m + n \<and> shutdown_request_at e t)) =
        (\<exists>t. now w < t \<and> t \<le> ?m + n \<and> shutdown_request_at e t)"
  proof (intro iffI)
    assume "(\<exists>t. now w < t \<and> t \<le> ?m \<and> shutdown_request_at e t) \<or>
            (\<exists>t. ?m < t \<and> t \<le> ?m + n \<and> shutdown_request_at e t)"
    then show "\<exists>t. now w < t \<and> t \<le> ?m + n \<and> shutdown_request_at e t"
    proof
      assume "\<exists>t. now w < t \<and> t \<le> ?m \<and> shutdown_request_at e t"
      then obtain t where "now w < t" "t \<le> ?m" "shutdown_request_at e t" by blast
      then have "now w < t \<and> t \<le> ?m + n \<and> shutdown_request_at e t" by simp
      then show ?thesis ..
    next
      assume "\<exists>t. ?m < t \<and> t \<le> ?m + n \<and> shutdown_request_at e t"
      then obtain t where "?m < t" "t \<le> ?m + n" "shutdown_request_at e t" by blast
      then have "now w < t \<and> t \<le> ?m + n \<and> shutdown_request_at e t" by simp
      then show ?thesis ..
    qed
  next
    assume "\<exists>t. now w < t \<and> t \<le> ?m + n \<and> shutdown_request_at e t"
    then obtain t where t: "now w < t" "t \<le> ?m + n" "shutdown_request_at e t" by blast
    show "(\<exists>t. now w < t \<and> t \<le> ?m \<and> shutdown_request_at e t) \<or>
          (\<exists>t. ?m < t \<and> t \<le> ?m + n \<and> shutdown_request_at e t)"
    proof (cases "t \<le> ?m")
      case True
      with t show ?thesis by blast
    next
      case False
      then have "?m < t" by simp
      with t show ?thesis by blast
    qed
  qed
  moreover have "forcing_shutdown ((msleep e n ^^ Suc k) w) =
      ((forcing_shutdown w \<or> (\<exists>t. now w < t \<and> t \<le> ?m \<and> shutdown_request_at e t)) \<or>
       (\<exists>t. ?m < t \<and> t \<le> ?m + n \<and> shutdown_request_at e t))"
    using Suc by (simp add: msleep_forcing_shutdown)
  moreover have "now w + n * Suc k = ?m + n" by simp
  ultimately show ?case by (simp only: disj_assoc)
qed

lemma charger_wait_exhausted:
  "tries = CHARGER_INITIALIZED_TRIES - int n \<Longrightarrow>
   \<forall>k \<le> n. charge_prevent_power_on_at e (now w + CHARGER_INITIALIZED_DELAY_MS * k) 0 \<Longrightarrow>
   charger_wait e tries w =
     (CHARGER_INITIALIZED_TRIES + 1, (msleep e CHARGER_INITIALIZED_DELAY_MS ^^ n) w)"
proof (induction n arbitrary: tries w)
  case 0
  then show ?case
    by (subst charger_wait.simps) (simp add: charge_prevent_power_on_def)
next
  case (Suc n)
  let ?w' = "msleep e CHARGER_INITIALIZED_DELAY_MS w"
  from Suc.prems(2) have p0: "charge_prevent_power_on e 0 w"
    by (auto simp: charge_prevent_power_on_def dest: spec [of _ 0])
  have lt: "tries < CHARGER_INITIALIZED_TRIES"
    using Suc.prems(1) by simp
  have t': "tries + 1 = CHARGER_INITIALIZED_TRIES - int n"
    using Suc.prems(1) by simp
  have "\<forall>k \<le> n. charge_prevent_power_on_at e (now ?w' + CHARGER_INITIALIZED_DELAY_MS * k) 0"
  proof (intro allI impI)
    fix k assume "k \<le> n"
    then have "Suc k \<le> Suc n" by simp
    with Suc.prems(2) have "charge_prevent_power_on_at e
        (now w + CHARGER_INITIALIZED_DELAY_MS * Suc k) 0" by blast
    then show "charge_prevent_power_on_at e (now ?w' + CHARGER_INITIALIZED_DELAY_MS * k) 0"
      by (simp add: add.assoc)
  qed
  from Suc.IH [OF t' this]
  have "charger_wait e (tries + 1) ?w' =
     (CHARGER_INITIALIZED_TRIES + 1, (msleep e CHARGER_INITIALIZED_DELAY_MS ^^ n) ?w')" .
  with p0 lt show ?case
    by (subst charger_wait.simps) (simp add: funpow_swap1)
qed

lemma charger_wait_opens:
  "tries + int k \<le> CHARGER_INITIALIZED_TRIES \<Longrightarrow>
   \<not> charge_prevent_power_on_at e (now w + CHARGER_INITIALIZED_DELAY_MS * k) 0 \<Longrightarrow>
   \<forall>j < k. charge_prevent_power_on_at e (now w + CHARGER_INITIALIZED_DELAY_MS * j) 0 \<Longrightarrow>
   charger_wait e tries w =
     (tries + int k, (msleep e CHARGER_INITIALIZED_DELAY_MS ^^ k) w)"
proof (induction k arbitrary: tries w)
  case 0
  then show ?case
    by (subst charger_wait.simps) (simp add: charge_prevent_power_on_def)
next
  case (Suc k)
  let ?w' = "msleep e CHARGER_INITIALIZED_DELAY_MS w"
  from Suc.prems(3) have p0: "charge_prevent_power_on e 0 w"
    by (auto simp: charge_prevent_power_on_def dest: spec [of _ 0])
  have lt: "tries < CHARGER_INITIALIZED_TRIES"
    using Suc.prems(1) by simp
  have t': "tries + 1 + int k \<le> CHARGER_INITIALIZED_TRIES"
    using Suc.prems(1) by simp
  have np: "\<not> charge_prevent_power_on_at e (now ?w' + CHARGER_INITIALIZED_DELAY_MS * k) 0"
    using Suc.prems(2) by (simp add: add.assoc)
  have "\<forall>j < k. charge_prevent_power_on_at e (now ?w' + CHARGER_INITIALIZED_DELAY_MS * j) 0"
  proof (intro allI impI)
    fix j assume "j < k"
    then have "Suc j < Suc k" by simp
    with Suc.prems(3) have "charge_prevent_power_on_at e
        (now w + CHARGER_INITIALIZED_DELAY_MS * Suc j) 0" by blast
    then show "charge_prevent_power_on_at e (now ?w' + CHARGER_INITIALIZED_DELAY_MS * j) 0"
      by (simp add: add.assoc)
  qed
  from Suc.IH [OF t' np this]
  have "charger_wait e (tries + 1) ?w' =
     (tries + 1 + int k, (msleep e CHARGER_INITIALIZED_DELAY_MS ^^ k) ?w')" .
  with p0 lt show ?case
    by (subst charger_wait.simps) (simp add: funpow_swap1)
qed


lemma chipset_force_shutdown_fields [simp]:
  "forcing_shutdown (chipset_force_shutdown w)"
  "sys_reset_asserted (chipset_force_shutdown w) = sys_reset_asserted w"
  "now (chipset_force_shutdown w) = now w"
  "trace (chipset_force_shutdown w) = trace w @ [Cprints ''chipset_force_shutdown()'', TaskWake]"
  by (simp_all add: chipset_force_shutdown_def)

lemma cprints_fields [simp]:
  "forcing_shutdown (cprints m w) = forcing_shutdown w"
  "sys_reset_asserted (cprints m w) = sys_reset_asserted w"
  "now (cprints m w) = now w"
  "trace (cprints m w) = trace w @ [Cprints m]"
  by (simp_all add: cprints_def)

text \<open>
  C4. In G3S5 the handler first clears \<open>forcing_shutdown\<close> (its result does not depend
  on the flag's value at the call). It then polls the charger gate, sleeping 100 ms after
  each poll that prevents power-on, at most 40 times. If all 41 polls (the first, and one
  after each of the 40 sleeps) prevent power-on, it returns G3 with \<open>forcing_shutdown\<close>
  set, 4000 ms later. If the poll after \<open>k \<le> 40\<close> sleeps is the first to allow
  power-on: it returns G3 with \<open>forcing_shutdown\<close> set when the charger wants a
  shutdown at that moment, and S5 otherwise, having done nothing but the \<open>k\<close> sleeps
  (\<open>forcing_shutdown\<close> is then set only if another task requested a shutdown meanwhile).
\<close>

theorem g3s5_charger_gate:
  "power_handle_state cfg e POWER_G3S5 w =
     power_handle_state cfg e POWER_G3S5 (w\<lparr>forcing_shutdown := False\<rparr>) \<and>
   ((\<forall>k \<le> 40. charge_prevent_power_on_at e (now w + 100 * k) 0) \<longrightarrow>
      fst (power_handle_state cfg e POWER_G3S5 w) = POWER_G3 \<and>
      forcing_shutdown (snd (power_handle_state cfg e POWER_G3S5 w)) \<and>
      now (snd (power_handle_state cfg e POWER_G3S5 w)) = now w + 4000) \<and>
   (\<forall>k \<le> 40.
      \<not> charge_prevent_power_on_at e (now w + 100 * k) 0 \<and>
      (\<forall>j < k. charge_prevent_power_on_at e (now w + 100 * j) 0) \<longrightarrow>
      now (snd (power_handle_state cfg e POWER_G3S5 w)) = now w + 100 * k \<and>
      (if charge_want_shutdown_at e (now w + 100 * k)
       then fst (power_handle_state cfg e POWER_G3S5 w) = POWER_G3 \<and>
            forcing_shutdown (snd (power_handle_state cfg e POWER_G3S5 w))
       else fst (power_handle_state cfg e POWER_G3S5 w) = POWER_S5 \<and>
            trace (snd (power_handle_state cfg e POWER_G3S5 w)) =
              trace w @ replicate k (Msleep 100) \<and>
            forcing_shutdown (snd (power_handle_state cfg e POWER_G3S5 w)) =
              (\<exists>t. now w < t \<and> t \<le> now w + 100 * k \<and> shutdown_request_at e t)))"
proof (intro conjI impI allI)
  show "power_handle_state cfg e POWER_G3S5 w =
     power_handle_state cfg e POWER_G3S5 (w\<lparr>forcing_shutdown := False\<rparr>)"
    by simp
next
  let ?w1 = "w\<lparr>forcing_shutdown := False\<rparr>"
  assume all: "\<forall>k \<le> 40. charge_prevent_power_on_at e (now w + 100 * k) 0"
  have "charger_wait e 0 ?w1 =
     (CHARGER_INITIALIZED_TRIES + 1, (msleep e CHARGER_INITIALIZED_DELAY_MS ^^ 40) ?w1)"
    by (rule charger_wait_exhausted)
       (use all in \<open>simp_all add: CHARGER_INITIALIZED_TRIES_def CHARGER_INITIALIZED_DELAY_MS_def\<close>)
  then have r: "power_handle_state cfg e POWER_G3S5 w =
      (POWER_G3, chipset_force_shutdown (cprints ''power-up inhibited''
         ((msleep e CHARGER_INITIALIZED_DELAY_MS ^^ 40) ?w1)))"
    by (simp add: Let_def)
  show "fst (power_handle_state cfg e POWER_G3S5 w) = POWER_G3"
    unfolding r by simp
  show "forcing_shutdown (snd (power_handle_state cfg e POWER_G3S5 w))"
    unfolding r by simp
  show "now (snd (power_handle_state cfg e POWER_G3S5 w)) = now w + 4000"
    unfolding r by (simp add: CHARGER_INITIALIZED_DELAY_MS_def)
next
  fix k :: nat
  let ?w1 = "w\<lparr>forcing_shutdown := False\<rparr>"
  let ?w2 = "(msleep e CHARGER_INITIALIZED_DELAY_MS ^^ k) ?w1"
  assume k: "k \<le> 40"
    and first: "\<not> charge_prevent_power_on_at e (now w + 100 * k) 0 \<and>
      (\<forall>j < k. charge_prevent_power_on_at e (now w + 100 * j) 0)"
  have cw: "charger_wait e 0 ?w1 = (0 + int k, ?w2)"
    by (rule charger_wait_opens)
       (use k first in \<open>simp_all add: CHARGER_INITIALIZED_TRIES_def CHARGER_INITIALIZED_DELAY_MS_def\<close>)
  have n2: "now ?w2 = now w + 100 * k"
    by (simp add: CHARGER_INITIALIZED_DELAY_MS_def)
  have r: "power_handle_state cfg e POWER_G3S5 w =
      (if charge_want_shutdown_at e (now w + 100 * k)
       then (POWER_G3, chipset_force_shutdown (cprints ''power-up inhibited'' ?w2))
       else (POWER_S5, ?w2))"
    using cw k by (simp add: Let_def charge_want_shutdown_def CHARGER_INITIALIZED_TRIES_def
        CHARGER_INITIALIZED_DELAY_MS_def)
  show "now (snd (power_handle_state cfg e POWER_G3S5 w)) = now w + 100 * k"
    unfolding r using n2 by simp
  show "if charge_want_shutdown_at e (now w + 100 * k)
       then fst (power_handle_state cfg e POWER_G3S5 w) = POWER_G3 \<and>
            forcing_shutdown (snd (power_handle_state cfg e POWER_G3S5 w))
       else fst (power_handle_state cfg e POWER_G3S5 w) = POWER_S5 \<and>
            trace (snd (power_handle_state cfg e POWER_G3S5 w)) =
              trace w @ replicate k (Msleep 100) \<and>
            forcing_shutdown (snd (power_handle_state cfg e POWER_G3S5 w)) =
              (\<exists>t. now w < t \<and> t \<le> now w + 100 * k \<and> shutdown_request_at e t)"
    unfolding r
    by (simp add: msleep_funpow_forcing_shutdown CHARGER_INITIALIZED_DELAY_MS_def)
qed


theorem g3s5_charger_gate_witness:
  "fst (power_handle_state cfg_v2 (charger_env (\<lambda>t. True) (\<lambda>t. False)) POWER_G3S5
          (boot_world\<lparr>forcing_shutdown := True\<rparr>)) = POWER_G3 \<and>
   forcing_shutdown (snd (power_handle_state cfg_v2 (charger_env (\<lambda>t. True) (\<lambda>t. False))
          POWER_G3S5 (boot_world\<lparr>forcing_shutdown := True\<rparr>))) \<and>
   now (snd (power_handle_state cfg_v2 (charger_env (\<lambda>t. True) (\<lambda>t. False))
          POWER_G3S5 (boot_world\<lparr>forcing_shutdown := True\<rparr>))) = 4000 \<and>
   fst (power_handle_state cfg_v2 (charger_env (\<lambda>t. t < 250) (\<lambda>t. False)) POWER_G3S5
          (boot_world\<lparr>forcing_shutdown := True\<rparr>)) = POWER_S5 \<and>
   \<not> forcing_shutdown (snd (power_handle_state cfg_v2 (charger_env (\<lambda>t. t < 250) (\<lambda>t. False))
          POWER_G3S5 (boot_world\<lparr>forcing_shutdown := True\<rparr>))) \<and>
   trace (snd (power_handle_state cfg_v2 (charger_env (\<lambda>t. t < 250) (\<lambda>t. False))
          POWER_G3S5 (boot_world\<lparr>forcing_shutdown := True\<rparr>))) =
     [Msleep 100, Msleep 100, Msleep 100]"
proof -
  let ?w = "boot_world\<lparr>forcing_shutdown := True\<rparr>"
  let ?e1 = "charger_env (\<lambda>t. True) (\<lambda>t. False)"
  let ?e2 = "charger_env (\<lambda>t. t < 250) (\<lambda>t. False)"
  have n: "now ?w = 0" "trace ?w = []"
    by (simp_all add: boot_world_def)
  have h1: "\<forall>k \<le> 40. charge_prevent_power_on_at ?e1 (now ?w + 100 * k) 0"
    by (simp add: charger_env_def)
  have h2: "(3::nat) \<le> 40 \<and> \<not> charge_prevent_power_on_at ?e2 (now ?w + 100 * 3) 0 \<and>
      (\<forall>j < 3. charge_prevent_power_on_at ?e2 (now ?w + 100 * j) 0)"
    by (simp add: charger_env_def n)
  have h3: "\<not> charge_want_shutdown_at ?e2 (now ?w + 100 * 3)"
      "\<not> (\<exists>t. now ?w < t \<and> t \<le> now ?w + 100 * 3 \<and> shutdown_request_at ?e2 t)"
    by (simp_all add: charger_env_def calm_env_def)
  from g3s5_charger_gate [of cfg_v2 ?e1 ?w] h1
  have a: "fst (power_handle_state cfg_v2 ?e1 POWER_G3S5 ?w) = POWER_G3 \<and>
      forcing_shutdown (snd (power_handle_state cfg_v2 ?e1 POWER_G3S5 ?w)) \<and>
      now (snd (power_handle_state cfg_v2 ?e1 POWER_G3S5 ?w)) = now ?w + 4000"
    by blast
  from g3s5_charger_gate [of cfg_v2 ?e2 ?w] h2
  have "if charge_want_shutdown_at ?e2 (now ?w + 100 * 3)
       then fst (power_handle_state cfg_v2 ?e2 POWER_G3S5 ?w) = POWER_G3 \<and>
            forcing_shutdown (snd (power_handle_state cfg_v2 ?e2 POWER_G3S5 ?w))
       else fst (power_handle_state cfg_v2 ?e2 POWER_G3S5 ?w) = POWER_S5 \<and>
            trace (snd (power_handle_state cfg_v2 ?e2 POWER_G3S5 ?w)) =
              trace ?w @ replicate 3 (Msleep 100) \<and>
            forcing_shutdown (snd (power_handle_state cfg_v2 ?e2 POWER_G3S5 ?w)) =
              (\<exists>t. now ?w < t \<and> t \<le> now ?w + 100 * 3 \<and> shutdown_request_at ?e2 t)"
    by blast
  with h3 have b: "fst (power_handle_state cfg_v2 ?e2 POWER_G3S5 ?w) = POWER_S5 \<and>
            trace (snd (power_handle_state cfg_v2 ?e2 POWER_G3S5 ?w)) =
              trace ?w @ replicate 3 (Msleep 100) \<and>
            \<not> forcing_shutdown (snd (power_handle_state cfg_v2 ?e2 POWER_G3S5 ?w))"
    by (simp only: if_False) blast
  from a b show ?thesis
    by (simp only: n) (simp add: numeral_3_eq_3 del: power_handle_state.simps)
qed

subsection \<open>The debounce of S0\<close>

text \<open>
  C5. In S0, when none of the exit conditions holds at the call (the S3 power-good mask is
  present, \<open>forcing_shutdown\<close> is clear, the run signal is asserted): a build of
  sequencing version 2 stays in S0 without any effect. Any other build waits, with a
  timeout of 100 ms (100000 microseconds), for the AP (and system) power-good signals, once;
  it returns S0S3 if the wait timed out, and otherwise evaluates the three exit
  conditions again on the state of the world after the wait (the signal mask then, and
  \<open>forcing_shutdown\<close> as set by a shutdown requested during the wait), returning S0S3
  if one holds and S0 if none does.
\<close>

theorem s0_debounce_and_recheck:
  assumes "power_has_signals e w (IN_PGOOD_S3 cfg)"
    and "\<not> forcing_shutdown w"
    and "power_get_signals e w AND IN_SUSPEND_DEASSERTED cfg \<noteq> 0"
  shows "(seq_version cfg = 2 \<longrightarrow> power_handle_state cfg e POWER_S0 w = (POWER_S0, w)) \<and>
         (seq_version cfg \<noteq> 2 \<longrightarrow>
            (case wait_signals_timeout_at e (now w) (IN_PGOOD_AP cfg OR IN_PGOOD_SYS cfg) 100000 of
               (rc, dt) \<Rightarrow>
                 fst (power_handle_state cfg e POWER_S0 w) =
                   (if rc = EC_ERROR_TIMEOUT \<or>
                       signals_at e (now w + dt) AND IN_PGOOD_S3 cfg \<noteq> IN_PGOOD_S3 cfg \<or>
                       (\<exists>t. now w < t \<and> t \<le> now w + dt \<and> shutdown_request_at e t) \<or>
                       signals_at e (now w + dt) AND IN_SUSPEND_DEASSERTED cfg = 0
                    then POWER_S0S3 else POWER_S0) \<and>
                 now (snd (power_handle_state cfg e POWER_S0 w)) = now w + dt \<and>
                 trace (snd (power_handle_state cfg e POWER_S0 w)) =
                   trace w @ [WaitSignalsTimeout (IN_PGOOD_AP cfg OR IN_PGOOD_SYS cfg) 100000]))"
proof (intro conjI impI)
  assume "seq_version cfg = 2"
  with assms show "power_handle_state cfg e POWER_S0 w = (POWER_S0, w)"
    by simp
next
  assume v: "seq_version cfg \<noteq> 2"
  obtain rc dt where wt:
    "wait_signals_timeout_at e (now w) (IN_PGOOD_AP cfg OR IN_PGOOD_SYS cfg) 100000 = (rc, dt)"
    by (cases "wait_signals_timeout_at e (now w) (IN_PGOOD_AP cfg OR IN_PGOOD_SYS cfg) 100000")
  let ?w1 = "pass_time e dt (log_event
      (WaitSignalsTimeout (IN_PGOOD_AP cfg OR IN_PGOOD_SYS cfg) 100000) w)"
  have pw: "power_wait_signals_timeout e (IN_PGOOD_AP cfg OR IN_PGOOD_SYS cfg)
              PGOOD_AP_DEBOUNCE_TIMEOUT w = (rc, ?w1)"
    using wt by (simp add: power_wait_signals_timeout_def PGOOD_AP_DEBOUNCE_TIMEOUT_def MSEC_def)
  have fs: "forcing_shutdown ?w1 =
      (\<exists>t. now w < t \<and> t \<le> now w + dt \<and> shutdown_request_at e t)"
    using assms(2) by (simp add: pass_time_forcing_shutdown)
  have r: "power_handle_state cfg e POWER_S0 w =
      (if rc = EC_ERROR_TIMEOUT \<or>
          signals_at e (now w + dt) AND IN_PGOOD_S3 cfg \<noteq> IN_PGOOD_S3 cfg \<or>
          (\<exists>t. now w < t \<and> t \<le> now w + dt \<and> shutdown_request_at e t) \<or>
          signals_at e (now w + dt) AND IN_SUSPEND_DEASSERTED cfg = 0
       then POWER_S0S3 else POWER_S0, ?w1)"
    using assms v pw fs by (simp add: power_has_signals_def power_get_signals_def) blast
  show "case wait_signals_timeout_at e (now w) (IN_PGOOD_AP cfg OR IN_PGOOD_SYS cfg) 100000 of
               (rc, dt) \<Rightarrow>
                 fst (power_handle_state cfg e POWER_S0 w) =
                   (if rc = EC_ERROR_TIMEOUT \<or>
                       signals_at e (now w + dt) AND IN_PGOOD_S3 cfg \<noteq> IN_PGOOD_S3 cfg \<or>
                       (\<exists>t. now w < t \<and> t \<le> now w + dt \<and> shutdown_request_at e t) \<or>
                       signals_at e (now w + dt) AND IN_SUSPEND_DEASSERTED cfg = 0
                    then POWER_S0S3 else POWER_S0) \<and>
                 now (snd (power_handle_state cfg e POWER_S0 w)) = now w + dt \<and>
                 trace (snd (power_handle_state cfg e POWER_S0 w)) =
                   trace w @ [WaitSignalsTimeout (IN_PGOOD_AP cfg OR IN_PGOOD_SYS cfg) 100000]"
    unfolding wt r by simp
qed

theorem s0_debounce_and_recheck_witness:
  "fst (power_handle_state cfg_v0 (debounce_env (\<lambda>t. 15) EC_SUCCESS 3) POWER_S0 boot_world)
     = POWER_S0 \<and>
   fst (power_handle_state cfg_v0 (debounce_env (\<lambda>t. 15) EC_ERROR_TIMEOUT 100) POWER_S0 boot_world)
     = POWER_S0S3 \<and>
   fst (power_handle_state cfg_v0 (debounce_env (\<lambda>t. if t < 3 then 15 else 7) EC_SUCCESS 3)
          POWER_S0 boot_world)
     = POWER_S0S3 \<and>
   power_handle_state cfg_v2 (debounce_env (\<lambda>t. 15) EC_SUCCESS 3) POWER_S0 boot_world
     = (POWER_S0, boot_world)"
proof -
  have m: "IN_PGOOD_S3 cfg_v0 = 1" "IN_SUSPEND_DEASSERTED cfg_v0 = 8"
      "IN_PGOOD_S3 cfg_v2 = 1" "IN_SUSPEND_DEASSERTED cfg_v2 = 8"
    by (simp_all add: IN_PGOOD_S3_def IN_PGOOD_PP5000_def IN_PGOOD_PP1250_S3_def
        IN_SUSPEND_DEASSERTED_def POWER_SIGNAL_MASK_def cfg_v0_def cfg_v2_def)
  have v: "seq_version cfg_v0 \<noteq> 2" "seq_version cfg_v2 = 2"
    by (simp_all add: cfg_v0_def cfg_v2_def)
  have b: "now boot_world = 0" "\<not> forcing_shutdown boot_world"
    by (simp_all add: boot_world_def)
  have e: "signals_at (debounce_env sigs rc dt) = sigs"
      "wait_signals_timeout_at (debounce_env sigs rc dt) = (\<lambda>t m d. (rc, dt))"
      "shutdown_request_at (debounce_env sigs rc dt) = (\<lambda>t. False)" for sigs rc dt
    by (simp_all add: debounce_env_def calm_env_def)
  have h: "power_has_signals (debounce_env sigs rc dt) boot_world (IN_PGOOD_S3 cfg)"
      "power_get_signals (debounce_env sigs rc dt) boot_world AND IN_SUSPEND_DEASSERTED cfg \<noteq> 0"
    if "sigs 0 = 15" "cfg = cfg_v0 \<or> cfg = cfg_v2" for sigs rc dt cfg
    using that by (auto simp: power_has_signals_def power_get_signals_def e b m)
  from s0_debounce_and_recheck [OF h(1) b(2) h(2), of "\<lambda>t. 15" cfg_v0 EC_SUCCESS 3] v
  have 1: "fst (power_handle_state cfg_v0 (debounce_env (\<lambda>t. 15) EC_SUCCESS 3) POWER_S0 boot_world)
     = POWER_S0"
    by (simp add: e b m del: power_handle_state.simps)
  from s0_debounce_and_recheck [OF h(1) b(2) h(2), of "\<lambda>t. 15" cfg_v0 EC_ERROR_TIMEOUT 100] v
  have 2: "fst (power_handle_state cfg_v0 (debounce_env (\<lambda>t. 15) EC_ERROR_TIMEOUT 100) POWER_S0
       boot_world) = POWER_S0S3"
    by (simp add: e b m del: power_handle_state.simps)
  from s0_debounce_and_recheck [OF h(1) b(2) h(2), of "\<lambda>t. if t < 3 then 15 else 7" cfg_v0
      EC_SUCCESS 3] v
  have 3: "fst (power_handle_state cfg_v0 (debounce_env (\<lambda>t. if t < 3 then 15 else 7) EC_SUCCESS 3)
          POWER_S0 boot_world) = POWER_S0S3"
    by (simp add: e b m del: power_handle_state.simps)
  from s0_debounce_and_recheck [OF h(1) b(2) h(2), of "\<lambda>t. 15" cfg_v2 EC_SUCCESS 3] v
  have 4: "power_handle_state cfg_v2 (debounce_env (\<lambda>t. 15) EC_SUCCESS 3) POWER_S0 boot_world
     = (POWER_S0, boot_world)"
    by (simp add: e b m del: power_handle_state.simps)
  from 1 2 3 4 show ?thesis by (simp del: power_handle_state.simps)
qed

subsection \<open>What the executor leaves alone\<close>

lemma deferred_calls_append [simp]:
  "deferred_calls (xs @ ys) = deferred_calls xs @ deferred_calls ys"
  by (induction xs rule: deferred_calls.induct) simp_all

lemma msleep_check_deferred:
  "deferred_calls (trace (snd (MSLEEP_CHECK_ABORTED_SUSPEND cfg e r w))) =
     deferred_calls (trace w)"
proof (induction cfg e r w rule: MSLEEP_CHECK_ABORTED_SUSPEND.induct)
  case (1 cfg e r w)
  show ?case
    using "1.IH" [OF refl refl]
    by (subst MSLEEP_CHECK_ABORTED_SUSPEND.simps) (simp add: Let_def)
qed

lemma msleep_check_sys_reset:
  "sys_reset_asserted (snd (MSLEEP_CHECK_ABORTED_SUSPEND cfg e r w)) = sys_reset_asserted w"
proof (induction cfg e r w rule: MSLEEP_CHECK_ABORTED_SUSPEND.induct)
  case (1 cfg e r w)
  show ?case
    using "1.IH" [OF refl refl]
    by (subst MSLEEP_CHECK_ABORTED_SUSPEND.simps) (simp add: Let_def)
qed

lemma msleep_check_forced:
  "forcing_shutdown w \<Longrightarrow>
   \<not> fst (MSLEEP_CHECK_ABORTED_SUSPEND cfg e r w) \<and>
   forcing_shutdown (snd (MSLEEP_CHECK_ABORTED_SUSPEND cfg e r w))"
proof (induction cfg e r w rule: MSLEEP_CHECK_ABORTED_SUSPEND.induct)
  case (1 cfg e r w)
  let ?w1 = "msleep e (nat (min r SLEEP_INTERVAL_MS)) w"
  from "1.prems" have f: "forcing_shutdown ?w1" by simp
  show ?case
  proof (cases "r - SLEEP_INTERVAL_MS > 0")
    case True
    from f have "\<not> (\<not> forcing_shutdown ?w1 \<and>
        power_get_signals e ?w1 AND IN_SUSPEND_DEASSERTED cfg \<noteq> 0)" by simp
    from "1.IH" [OF refl refl this True f] f True show ?thesis
      by (subst (1 2) MSLEEP_CHECK_ABORTED_SUSPEND.simps) (simp add: Let_def)
  next
    case False
    with f show ?thesis
      by (subst (1 2) MSLEEP_CHECK_ABORTED_SUSPEND.simps) (simp add: Let_def)
  qed
qed

lemma power_seq_run_deferred:
  "deferred_calls (trace (snd (power_seq_run cfg e b ops w))) = deferred_calls (trace w)"
proof (induction ops arbitrary: w)
  case Nil
  show ?case by simp
next
  case (Cons op ops)
  let ?w1 = "gpio_set_level (signal op) (level op) w"
  obtain a w2 where m: "MSLEEP_CHECK_ABORTED_SUSPEND cfg e (uint (delay op)) ?w1 = (a, w2)"
    by (cases "MSLEEP_CHECK_ABORTED_SUSPEND cfg e (uint (delay op)) ?w1")
  from msleep_check_deferred [of cfg e "uint (delay op)" ?w1] m
  have "deferred_calls (trace w2) = deferred_calls (trace w)" by simp
  with m Cons.IH show ?case
    by (cases a; cases b) (simp_all add: Let_def)
qed

lemma power_seq_run_sys_reset:
  "sys_reset_asserted (snd (power_seq_run cfg e b ops w)) = sys_reset_asserted w"
proof (induction ops arbitrary: w)
  case Nil
  show ?case by simp
next
  case (Cons op ops)
  let ?w1 = "gpio_set_level (signal op) (level op) w"
  obtain a w2 where m: "MSLEEP_CHECK_ABORTED_SUSPEND cfg e (uint (delay op)) ?w1 = (a, w2)"
    by (cases "MSLEEP_CHECK_ABORTED_SUSPEND cfg e (uint (delay op)) ?w1")
  from msleep_check_sys_reset [of cfg e "uint (delay op)" ?w1] m
  have "sys_reset_asserted w2 = sys_reset_asserted w" by simp
  with m Cons.IH show ?case
    by (cases a; cases b) (simp_all add: Let_def)
qed

lemma power_seq_run_forced:
  "forcing_shutdown w \<Longrightarrow>
   \<not> fst (power_seq_run cfg e b ops w) \<and> forcing_shutdown (snd (power_seq_run cfg e b ops w))"
proof (induction ops arbitrary: w)
  case Nil
  then show ?case by simp
next
  case (Cons op ops)
  let ?w1 = "gpio_set_level (signal op) (level op) w"
  obtain a w2 where m: "MSLEEP_CHECK_ABORTED_SUSPEND cfg e (uint (delay op)) ?w1 = (a, w2)"
    by (cases "MSLEEP_CHECK_ABORTED_SUSPEND cfg e (uint (delay op)) ?w1")
  from Cons.prems have f1: "forcing_shutdown ?w1" by simp
  from msleep_check_forced [OF f1, of cfg e "uint (delay op)"] m
  have a: "\<not> a" and f2: "forcing_shutdown w2" by simp_all
  from f1 have f3: "forcing_shutdown (msleep e (unat (delay op)) ?w1)" by simp
  from m a Cons.IH [OF f1] Cons.IH [OF f2] Cons.IH [OF f3] show ?case
    by (cases b) (simp_all add: Let_def)
qed

subsection \<open>The power button at the end of S0S3\<close>

text \<open>
  C6, as amended. When \<open>POWER_S0S3\<close> completes its teardown (it returns S3 rather than
  S3S0) and the power button is pressed at that moment, the handler sets
  \<open>forcing_shutdown\<close> itself and calls \<open>hook_call_deferred\<close> with the delay -1, which
  cancels the pending deferred shutdown; these are its last two effects after enabling
  sleep, and it makes no other call to \<open>hook_call_deferred\<close>: nothing is armed.
\<close>

theorem s0s3_button_forces_shutdown:
  assumes "fst (power_handle_state cfg e POWER_S0S3 w) = POWER_S3"
    and "power_button_is_pressed e (snd (power_handle_state cfg e POWER_S0S3 w))"
  shows "forcing_shutdown (snd (power_handle_state cfg e POWER_S0S3 w)) \<and>
         deferred_calls (trace (snd (power_handle_state cfg e POWER_S0S3 w))) =
           deferred_calls (trace w) @ [- 1] \<and>
         (\<exists>evs. trace (snd (power_handle_state cfg e POWER_S0S3 w)) =
                  evs @ [EnableSleep, HookCallDeferred (- 1)])"
proof -
  let ?w1 = "hook_notify HOOK_CHIPSET_SUSPEND w"
  obtain a w2 where m: "MSLEEP_CHECK_ABORTED_SUSPEND cfg e 20 ?w1 = (a, w2)"
    by (cases "MSLEEP_CHECK_ABORTED_SUSPEND cfg e 20 ?w1")
  obtain b w3 where s: "power_seq_run cfg e True (s0s3_power_seq cfg) w2 = (b, w3)"
    by (cases "power_seq_run cfg e True (s0s3_power_seq cfg) w2")
  from assms(1) m have a: "\<not> a"
    by (cases a) (simp_all add: Let_def)
  from assms(1) m s a have b: "\<not> b"
    by (cases b) (simp_all add: Let_def)
  let ?w4 = "enable_sleep w3"
  have r: "power_handle_state cfg e POWER_S0S3 w =
      (POWER_S3, if power_button_is_pressed e ?w4
                 then hook_call_deferred (- 1) (?w4\<lparr>forcing_shutdown := True\<rparr>) else ?w4)"
    using m s a b by (simp add: Let_def)
  have "now (snd (power_handle_state cfg e POWER_S0S3 w)) = now ?w4"
    unfolding r by (simp add: hook_call_deferred_def)
  with assms(2) have p: "power_button_is_pressed e ?w4"
    by (simp add: power_button_is_pressed_def)
  have r': "snd (power_handle_state cfg e POWER_S0S3 w) =
      hook_call_deferred (- 1) (?w4\<lparr>forcing_shutdown := True\<rparr>)"
    unfolding r using p by simp
  from msleep_check_deferred [of cfg e 20 ?w1] m
  have d2: "deferred_calls (trace w2) = deferred_calls (trace w)"
    by (simp add: hook_notify_def)
  from power_seq_run_deferred [of cfg e True "s0s3_power_seq cfg" w2] s
  have d3: "deferred_calls (trace w3) = deferred_calls (trace w2)"
    by simp
  have t: "trace (snd (power_handle_state cfg e POWER_S0S3 w)) =
      trace w3 @ [EnableSleep, HookCallDeferred (- 1)]"
    unfolding r' by (simp add: hook_call_deferred_def enable_sleep_def)
  have "forcing_shutdown (snd (power_handle_state cfg e POWER_S0S3 w))"
    unfolding r' by (simp add: hook_call_deferred_def)
  moreover have "deferred_calls (trace (snd (power_handle_state cfg e POWER_S0S3 w))) =
           deferred_calls (trace w) @ [- 1]"
    unfolding t using d2 d3 by simp
  moreover have "\<exists>evs. trace (snd (power_handle_state cfg e POWER_S0S3 w)) =
                  evs @ [EnableSleep, HookCallDeferred (- 1)]"
    using t by blast
  ultimately show ?thesis by blast
qed

theorem s0s3_button_forces_shutdown_witness:
  "fst (power_handle_state cfg_v2 button_held_env POWER_S0S3 boot_world) = POWER_S3 \<and>
   power_button_is_pressed button_held_env
     (snd (power_handle_state cfg_v2 button_held_env POWER_S0S3 boot_world)) \<and>
   forcing_shutdown (snd (power_handle_state cfg_v2 button_held_env POWER_S0S3 boot_world)) \<and>
   deferred_calls (trace (snd (power_handle_state cfg_v2 button_held_env POWER_S0S3 boot_world)))
     = [- 1]"
proof -
  have h1: "fst (power_handle_state cfg_v2 button_held_env POWER_S0S3 boot_world) = POWER_S3"
    by code_simp
  have h2: "power_button_is_pressed button_held_env
     (snd (power_handle_state cfg_v2 button_held_env POWER_S0S3 boot_world))"
    by code_simp
  from s0s3_button_forces_shutdown [OF h1 h2] h1 h2 show ?thesis
    by (simp add: boot_world_def del: power_handle_state.simps)
qed

text \<open>
  C6, as stated, fails: with the button held through a completed S0S3 teardown, no call
  \<open>hook_call_deferred(&force_shutdown_data, 0)\<close> is made; the only call has the delay -1.
\<close>

theorem s0s3_button_arms_nothing:
  "fst (power_handle_state cfg_v2 button_held_env POWER_S0S3 boot_world) = POWER_S3 \<and>
   power_button_is_pressed button_held_env
     (snd (power_handle_state cfg_v2 button_held_env POWER_S0S3 boot_world)) \<and>
   HookCallDeferred 0 \<notin>
     set (trace (snd (power_handle_state cfg_v2 button_held_env POWER_S0S3 boot_world))) \<and>
   deferred_calls (trace (snd (power_handle_state cfg_v2 button_held_env POWER_S0S3 boot_world)))
     = [- 1]"
  by code_simp

subsection \<open>The life of \<open>forcing_shutdown\<close>\<close>

lemma hook_fields [simp]:
  "forcing_shutdown (hook_notify h w) = forcing_shutdown w"
  "sys_reset_asserted (hook_notify h w) = sys_reset_asserted w"
  "now (hook_notify h w) = now w"
  "forcing_shutdown (hook_call_deferred d w) = forcing_shutdown w"
  "sys_reset_asserted (hook_call_deferred d w) = sys_reset_asserted w"
  "now (hook_call_deferred d w) = now w"
  "forcing_shutdown (enable_sleep w) = forcing_shutdown w"
  "sys_reset_asserted (enable_sleep w) = sys_reset_asserted w"
  "now (enable_sleep w) = now w"
  "forcing_shutdown (disable_sleep w) = forcing_shutdown w"
  "sys_reset_asserted (disable_sleep w) = sys_reset_asserted w"
  "now (disable_sleep w) = now w"
  "forcing_shutdown (chipset_exit_hard_off w) = forcing_shutdown w"
  "sys_reset_asserted (chipset_exit_hard_off w) = sys_reset_asserted w"
  "now (chipset_exit_hard_off w) = now w"
  by (simp_all add: hook_notify_def hook_call_deferred_def enable_sleep_def disable_sleep_def
      chipset_exit_hard_off_def)

lemma force_shutdown_fields [simp]:
  "forcing_shutdown (force_shutdown w)"
  "sys_reset_asserted (force_shutdown w) = sys_reset_asserted w"
  "now (force_shutdown w) = now w"
  by (simp_all add: force_shutdown_def)

lemma power_wait_signals_fields [simp]:
  "sys_reset_asserted (snd (power_wait_signals e m w)) = sys_reset_asserted w"
  "sys_reset_asserted (snd (power_wait_signals_timeout e m d w)) = sys_reset_asserted w"
  "forcing_shutdown w \<Longrightarrow> forcing_shutdown (snd (power_wait_signals e m w))"
  "forcing_shutdown w \<Longrightarrow> forcing_shutdown (snd (power_wait_signals_timeout e m d w))"
  by (simp_all add: power_wait_signals_def power_wait_signals_timeout_def split: prod.splits)

lemma chipset_reset_fields [simp]:
  "sys_reset_asserted (chipset_reset e irq cold w) = sys_reset_asserted w"
  "forcing_shutdown w \<Longrightarrow> forcing_shutdown (chipset_reset e irq cold w)"
  by (simp_all add: chipset_reset_def Let_def)

lemma power_chipset_init_fields [simp]:
  "sys_reset_asserted (snd (power_chipset_init cfg e w)) = sys_reset_asserted w"
  "forcing_shutdown (snd (power_chipset_init cfg e w)) = forcing_shutdown w"
  by (simp_all add: power_chipset_init_def)

lemma hooks_fields [simp]:
  "sys_reset_asserted (power_button_changed e off w) = sys_reset_asserted w"
  "forcing_shutdown (power_button_changed e off w) = forcing_shutdown w"
  "sys_reset_asserted (lid_changed is_open off w) = sys_reset_asserted w"
  "forcing_shutdown (lid_changed is_open off w) = forcing_shutdown w"
  by (simp_all add: power_button_changed_def lid_changed_def)

lemma handler_keeps_forcing:
  assumes "forcing_shutdown w" and "s \<noteq> POWER_G3S5"
  shows "forcing_shutdown (snd (power_handle_state cfg e s w))"
proof (cases s)
  case POWER_S0
  with assms(1) show ?thesis by simp
next
  case POWER_S5S3
  let ?w1 = "snd (power_seq_run cfg e False (s5s3_power_seq cfg) w)"
  have "forcing_shutdown ?w1"
    using assms(1) by (simp add: power_seq_run_forced)
  then have "forcing_shutdown (snd (power_wait_signals e (IN_PGOOD_S3 cfg)
      (?w1\<lparr>sys_reset_asserted := True\<rparr>)))"
    by simp
  with POWER_S5S3 show ?thesis
    by (auto simp: Let_def split: prod.splits)
next
  case POWER_S3S0
  let ?w1 = "snd (power_seq_run cfg e False (s3s0_power_seq cfg) w)"
  let ?w2 = "if sys_reset_asserted ?w1
             then (gpio_set_level GPIO_SYS_RST_L 1 (msleep e 10 ?w1))\<lparr>sys_reset_asserted := False\<rparr>
             else ?w1"
  have "forcing_shutdown ?w1"
    using assms(1) by (simp add: power_seq_run_forced)
  then have "forcing_shutdown ?w2" by simp
  then have "forcing_shutdown (snd (power_wait_signals e (IN_PGOOD_S0 cfg) ?w2))"
    by (rule power_wait_signals_fields(3))
  with POWER_S3S0 show ?thesis
    by (auto simp: Let_def split: prod.splits)
next
  case POWER_S0S3
  let ?w1 = "hook_notify HOOK_CHIPSET_SUSPEND w"
  obtain a w2 where m: "MSLEEP_CHECK_ABORTED_SUSPEND cfg e 20 ?w1 = (a, w2)"
    by (cases "MSLEEP_CHECK_ABORTED_SUSPEND cfg e 20 ?w1")
  obtain b w3 where r: "power_seq_run cfg e True (s0s3_power_seq cfg) w2 = (b, w3)"
    by (cases "power_seq_run cfg e True (s0s3_power_seq cfg) w2")
  from assms(1) have "forcing_shutdown ?w1" by simp
  from msleep_check_forced [OF this, of cfg e 20] m have a: "\<not> a" and f2: "forcing_shutdown w2"
    by simp_all
  from power_seq_run_forced [OF f2, of cfg e True "s0s3_power_seq cfg"] r
  have b: "\<not> b" and f3: "forcing_shutdown w3"
    by simp_all
  from POWER_S0S3 m r a b f3 show ?thesis
    by (simp add: Let_def)
next
  case POWER_S3S5
  with assms(1) show ?thesis
    by (simp add: Let_def power_seq_run_forced)
qed (use assms in simp_all)

subsection \<open>The reset line is released before S0\<close>

lemma handler_sys_reset_set_only_by_S5S3:
  assumes "s \<noteq> POWER_S5S3" and "sys_reset_asserted (snd (power_handle_state cfg e s w))"
  shows "sys_reset_asserted w"
proof (cases s)
  case POWER_S0
  with assms(2) show ?thesis
    by (auto simp: power_wait_signals_timeout_def split: if_splits prod.splits)
next
  case POWER_G3S5
  obtain tries w2 where c: "charger_wait e 0 (w\<lparr>forcing_shutdown := False\<rparr>) = (tries, w2)"
    by (cases "charger_wait e 0 (w\<lparr>forcing_shutdown := False\<rparr>)")
  have "sys_reset_asserted (snd (charger_wait e t w')) = sys_reset_asserted w'" for t w'
  proof (induction e t w' rule: charger_wait.induct)
    case (1 e tries w)
    then show ?case
      by (subst charger_wait.simps) simp
  qed
  from this [of 0 "w\<lparr>forcing_shutdown := False\<rparr>"] c
  have "sys_reset_asserted w2 = sys_reset_asserted w" by simp
  with POWER_G3S5 assms(2) c show ?thesis
    by (simp add: Let_def split: if_splits)
next
  case POWER_S3S0
  with assms(2) show ?thesis
    by (simp add: Let_def case_prod_beta power_seq_run_sys_reset split: if_splits)
next
  case POWER_S0S3
  let ?w1 = "hook_notify HOOK_CHIPSET_SUSPEND w"
  obtain a w2 where m: "MSLEEP_CHECK_ABORTED_SUSPEND cfg e 20 ?w1 = (a, w2)"
    by (cases "MSLEEP_CHECK_ABORTED_SUSPEND cfg e 20 ?w1")
  obtain b w3 where r: "power_seq_run cfg e True (s0s3_power_seq cfg) w2 = (b, w3)"
    by (cases "power_seq_run cfg e True (s0s3_power_seq cfg) w2")
  from msleep_check_sys_reset [of cfg e 20 ?w1] m
  have s2: "sys_reset_asserted w2 = sys_reset_asserted w" by simp
  from power_seq_run_sys_reset [of cfg e True "s0s3_power_seq cfg" w2] r
  have s3: "sys_reset_asserted w3 = sys_reset_asserted w2" by simp
  from POWER_S0S3 assms(2) m r s2 s3 show ?thesis
    by (cases a; cases b) (simp_all add: Let_def split: if_splits)
next
  case POWER_S3S5
  with assms(2) show ?thesis
    by (simp add: Let_def power_seq_run_sys_reset)
qed (use assms in \<open>simp_all split: if_splits\<close>)

lemma handler_S3S0_releases_reset:
  "\<not> sys_reset_asserted (snd (power_handle_state cfg e POWER_S3S0 w))"
  by (simp add: Let_def case_prod_beta power_seq_run_sys_reset)

lemma handler_reaches_S0_from:
  "fst (power_handle_state cfg e s w) = POWER_S0 \<Longrightarrow> s = POWER_S0 \<or> s = POWER_S3S0"
proof (cases s)
  case POWER_G3S5
  assume "fst (power_handle_state cfg e s w) = POWER_S0"
  with POWER_G3S5 show ?thesis
    by (simp add: Let_def split: prod.splits if_splits)
next
  case POWER_S5S3
  assume "fst (power_handle_state cfg e s w) = POWER_S0"
  with POWER_S5S3 show ?thesis
    by (simp add: Let_def split: prod.splits if_splits)
next
  case POWER_S0S3
  assume "fst (power_handle_state cfg e s w) = POWER_S0"
  with POWER_S0S3 show ?thesis
    by (simp add: Let_def split: prod.splits if_splits bool.splits)
qed (simp_all add: Let_def split: if_splits)

lemma reachable_S0_sys_reset:
  "reachable cfg s w \<Longrightarrow> s = POWER_S0 \<Longrightarrow> \<not> sys_reset_asserted w"
proof (induction rule: reachable.induct)
  case (init w e s w')
  from init(3) have "w' = snd (power_chipset_init cfg e w)" by simp
  with init(2) show ?case by simp
next
  case (step s w e s' w')
  from step.hyps(2) have f: "fst (power_handle_state cfg e s w) = s'"
    and w': "w' = snd (power_handle_state cfg e s w)" by simp_all
  from f step.prems have "s = POWER_S0 \<or> s = POWER_S3S0"
    by (simp add: handler_reaches_S0_from)
  then show ?case
  proof
    assume s: "s = POWER_S0"
    with step.IH have "\<not> sys_reset_asserted w" by simp
    with handler_sys_reset_set_only_by_S5S3 [of s cfg e w] s w' show ?thesis
      by blast
  next
    assume "s = POWER_S3S0"
    with w' show ?thesis
      by (simp only: handler_S3S0_releases_reset not_False_eq_True)
  qed
qed simp_all


lemma reachable_drive:
  "reachable cfg s w \<Longrightarrow> drive cfg e n s w = (ss, w') \<Longrightarrow> reachable cfg (last ss) w'"
proof (induction n arbitrary: s w ss w')
  case 0
  then show ?case by auto
next
  case (Suc n)
  obtain s1 w1 where h: "power_handle_state cfg e s w = (s1, w1)"
    by (cases "power_handle_state cfg e s w")
  obtain ss1 w2 where d: "drive cfg e n s1 w1 = (ss1, w2)"
    by (cases "drive cfg e n s1 w1")
  from Suc.prems(1) h have r1: "reachable cfg s1 w1"
    by (rule reachable.step)
  have "ss1 \<noteq> []"
    using d by (cases n) (auto split: prod.splits)
  moreover from Suc.prems(2) h d have "ss = s # ss1" "w' = w2"
    by (simp_all del: power_handle_state.simps)
  ultimately show ?case
    using Suc.IH [OF r1 d] by simp
qed

subsection \<open>Rounds of the task's loop\<close>

lemma drive_step:
  "power_handle_state cfg e s w = (s', w') \<Longrightarrow>
   drive cfg e (Suc n) s w = (s # fst (drive cfg e n s' w'), snd (drive cfg e n s' w'))"
  by (simp add: case_prod_beta del: power_handle_state.simps)

lemma pass_time_quiet:
  "\<forall>t. \<not> shutdown_request_at e t \<Longrightarrow>
   forcing_shutdown (pass_time e n w) = forcing_shutdown w"
  by (simp add: pass_time_forcing_shutdown)

lemma power_seq_run_quiet:
  "\<forall>t. \<not> shutdown_request_at e t \<Longrightarrow>
   forcing_shutdown (snd (power_seq_run cfg e False ops w)) = forcing_shutdown w"
  by (induction ops arbitrary: w) (simp_all add: Let_def msleep_def pass_time_quiet)

text \<open>
  What the surroundings are like while the machine powers up undisturbed: the S3
  power-good mask is present and the AP asks to run at all times, the power-good waits
  succeed, the charger allows the power-up, and no other task requests a shutdown.
\<close>

lemma power_up_path:
  assumes pg: "\<forall>t. signals_at e t AND IN_PGOOD_S3 cfg = IN_PGOOD_S3 cfg"
    and run: "\<forall>t. signals_at e t AND IN_SUSPEND_DEASSERTED cfg \<noteq> 0"
    and waits: "\<forall>t m. fst (wait_signals_at e t m) = EC_SUCCESS"
    and chg: "\<forall>t. \<not> charge_prevent_power_on_at e t 0" "\<forall>t. \<not> charge_want_shutdown_at e t"
    and quiet: "\<forall>t. \<not> shutdown_request_at e t"
  shows "fst (drive cfg e 5 POWER_G3S5 w) =
           [POWER_G3S5, POWER_S5, POWER_S5S3, POWER_S3, POWER_S3S0, POWER_S0] \<and>
         sys_reset_asserted (snd (drive cfg e 3 POWER_G3S5 w)) \<and>
         \<not> forcing_shutdown (snd (drive cfg e 5 POWER_G3S5 w)) \<and>
         \<not> sys_reset_asserted (snd (drive cfg e 5 POWER_G3S5 w))"
proof -
  define w1 where "w1 = w\<lparr>forcing_shutdown := False\<rparr>"
  define w3 where "w3 = snd (power_handle_state cfg e POWER_S5S3 w1)"
  define w5 where "w5 = snd (power_handle_state cfg e POWER_S3S0 w3)"
  have ws: "fst (power_wait_signals e m v) = EC_SUCCESS" for m v
    using waits by (simp add: power_wait_signals_def case_prod_beta)
  have wf: "forcing_shutdown (snd (power_wait_signals e m v)) = forcing_shutdown v" for m v
    using quiet by (simp add: power_wait_signals_def case_prod_beta pass_time_quiet)
  have h1: "power_handle_state cfg e POWER_G3S5 w = (POWER_S5, w1)"
    unfolding w1_def using chg
    by (subst power_handle_state.simps, subst charger_wait.simps)
       (simp add: charge_prevent_power_on_def charge_want_shutdown_def
          CHARGER_INITIALIZED_TRIES_def)
  have f1: "\<not> forcing_shutdown w1" by (simp add: w1_def)
  then have h2: "power_handle_state cfg e POWER_S5 w1 = (POWER_S5S3, w1)" by simp
  have h3: "power_handle_state cfg e POWER_S5S3 w1 = (POWER_S3, w3)"
    unfolding w3_def using ws by (simp add: Let_def case_prod_beta)
  have f3: "\<not> forcing_shutdown w3" and r3: "sys_reset_asserted w3"
    unfolding w3_def using ws f1 quiet
    by (simp_all add: Let_def case_prod_beta wf power_seq_run_quiet)
  have h4: "power_handle_state cfg e POWER_S3 w3 = (POWER_S3S0, w3)"
    using pg run f3 by (simp add: power_has_signals_def power_get_signals_def)
  have h5: "power_handle_state cfg e POWER_S3S0 w3 = (POWER_S0, w5)"
    unfolding w5_def using ws by (simp add: Let_def case_prod_beta)
  have f5: "\<not> forcing_shutdown w5"
    unfolding w5_def using ws f3 quiet
    by (simp add: Let_def case_prod_beta wf power_seq_run_quiet msleep_def pass_time_quiet)
  have r5: "\<not> sys_reset_asserted w5"
    unfolding w5_def by (rule handler_S3S0_releases_reset)
  have d0: "drive cfg e 0 s v = ([s], v)" for s v by simp
  have n5: "(5::nat) = Suc (Suc (Suc (Suc (Suc 0))))" by simp
  have n3: "(3::nat) = Suc (Suc (Suc 0))" by simp
  have d5: "drive cfg e 5 POWER_G3S5 w =
      ([POWER_G3S5, POWER_S5, POWER_S5S3, POWER_S3, POWER_S3S0, POWER_S0], w5)"
    unfolding n5
    by (simp only: drive_step [OF h1] drive_step [OF h2] drive_step [OF h3]
        drive_step [OF h4] drive_step [OF h5] d0 fst_conv snd_conv)
  have d3: "drive cfg e 3 POWER_G3S5 w = ([POWER_G3S5, POWER_S5, POWER_S5S3, POWER_S3], w3)"
    unfolding n3
    by (simp only: drive_step [OF h1] drive_step [OF h2] drive_step [OF h3]
        d0 fst_conv snd_conv)
  show ?thesis
    unfolding d5 d3 using f5 r5 r3 by simp
qed

text \<open>
  C10. Whenever the machine is in S0, \<open>sys_reset_asserted\<close> is clear. The flag is set by
  the S5S3 case and by no other case of \<open>power_handle_state\<close>; the S3S0 case leaves it
  clear on every path and, when it finds it set, sleeps 10 ms and releases
  \<open>GPIO_SYS_RST_L\<close> right after the sequence and before the wait for the S0 power-good
  signals; \<open>power_chipset_init\<close>, with its already-in-S0 path, does not touch it.
\<close>

theorem sys_reset_clear_in_S0:
  "(reachable cfg POWER_S0 w \<longrightarrow> \<not> sys_reset_asserted w) \<and>
   sys_reset_asserted (snd (power_handle_state cfg e POWER_S5S3 w)) \<and>
   (\<forall>s. s \<noteq> POWER_S5S3 \<and> sys_reset_asserted (snd (power_handle_state cfg e s w)) \<longrightarrow>
        sys_reset_asserted w) \<and>
   \<not> sys_reset_asserted (snd (power_handle_state cfg e POWER_S3S0 w)) \<and>
   (sys_reset_asserted w \<longrightarrow>
      (\<exists>evs. trace (snd (power_handle_state cfg e POWER_S3S0 w)) =
         trace (snd (power_seq_run cfg e False (s3s0_power_seq cfg) w)) @
         [Msleep 10, GpioSet GPIO_SYS_RST_L 1, WaitSignals (IN_PGOOD_S0 cfg)] @ evs)) \<and>
   sys_reset_asserted (snd (power_chipset_init cfg e w)) = sys_reset_asserted w"
proof (intro conjI impI allI)
  assume "reachable cfg POWER_S0 w"
  then show "\<not> sys_reset_asserted w"
    by (rule reachable_S0_sys_reset) simp
next
  show "sys_reset_asserted (snd (power_handle_state cfg e POWER_S5S3 w))"
    by (simp add: Let_def case_prod_beta)
next
  fix s
  assume "s \<noteq> POWER_S5S3 \<and> sys_reset_asserted (snd (power_handle_state cfg e s w))"
  then show "sys_reset_asserted w"
    using handler_sys_reset_set_only_by_S5S3 by blast
next
  show "\<not> sys_reset_asserted (snd (power_handle_state cfg e POWER_S3S0 w))"
    by (rule handler_S3S0_releases_reset)
next
  assume a: "sys_reset_asserted w"
  let ?w1 = "snd (power_seq_run cfg e False (s3s0_power_seq cfg) w)"
  let ?w2 = "(gpio_set_level GPIO_SYS_RST_L 1 (msleep e 10 ?w1))\<lparr>sys_reset_asserted := False\<rparr>"
  obtain rc dt where wt: "wait_signals_at e (now ?w2) (IN_PGOOD_S0 cfg) = (rc, dt)"
    by (cases "wait_signals_at e (now ?w2) (IN_PGOOD_S0 cfg)")
  from a have "sys_reset_asserted ?w1"
    by (simp add: power_seq_run_sys_reset)
  then have "trace (snd (power_handle_state cfg e POWER_S3S0 w)) =
         trace ?w1 @ [Msleep 10, GpioSet GPIO_SYS_RST_L 1, WaitSignals (IN_PGOOD_S0 cfg)] @
         (if rc \<noteq> EC_SUCCESS then [Cprints ''chipset_force_shutdown()'', TaskWake]
          else [HookNotify HOOK_CHIPSET_RESUME, DisableSleep])"
    using wt by (simp add: Let_def power_wait_signals_def hook_notify_def disable_sleep_def)
  then show "\<exists>evs. trace (snd (power_handle_state cfg e POWER_S3S0 w)) =
         trace ?w1 @ [Msleep 10, GpioSet GPIO_SYS_RST_L 1, WaitSignals (IN_PGOOD_S0 cfg)] @ evs"
    by blast
next
  show "sys_reset_asserted (snd (power_chipset_init cfg e w)) = sys_reset_asserted w"
    by simp
qed

theorem sys_reset_clear_in_S0_witness:
  "fst (drive cfg_v2 (calm_env (\<lambda>t. 15)) 5 POWER_G3S5 (chipset_exit_hard_off boot_world)) =
     [POWER_G3S5, POWER_S5, POWER_S5S3, POWER_S3, POWER_S3S0, POWER_S0] \<and>
   sys_reset_asserted
     (snd (drive cfg_v2 (calm_env (\<lambda>t. 15)) 3 POWER_G3S5 (chipset_exit_hard_off boot_world))) \<and>
   reachable cfg_v2 POWER_S0
     (snd (drive cfg_v2 (calm_env (\<lambda>t. 15)) 5 POWER_G3S5 (chipset_exit_hard_off boot_world))) \<and>
   \<not> sys_reset_asserted
     (snd (drive cfg_v2 (calm_env (\<lambda>t. 15)) 5 POWER_G3S5 (chipset_exit_hard_off boot_world)))"
proof -
  let ?e = "calm_env (\<lambda>t. 15)"
  let ?w0 = "chipset_exit_hard_off boot_world"
  have i: "power_chipset_init cfg_v2 ?e boot_world = (POWER_G3, ?w0)"
    by (simp add: power_chipset_init_def calm_env_def)
  have "reachable cfg_v2 POWER_G3 ?w0"
    by (rule reachable.init [OF _ _ i]) (simp_all add: boot_world_def)
  then have g: "reachable cfg_v2 POWER_G3S5 ?w0"
    by (rule reachable.exit_hard_off)
  have m: "IN_PGOOD_S3 cfg_v2 = 1" "IN_SUSPEND_DEASSERTED cfg_v2 = 8"
    by (simp_all add: IN_PGOOD_S3_def IN_PGOOD_PP1250_S3_def IN_SUSPEND_DEASSERTED_def
        POWER_SIGNAL_MASK_def cfg_v2_def)
  have up: "fst (drive cfg_v2 ?e 5 POWER_G3S5 ?w0) =
           [POWER_G3S5, POWER_S5, POWER_S5S3, POWER_S3, POWER_S3S0, POWER_S0] \<and>
         sys_reset_asserted (snd (drive cfg_v2 ?e 3 POWER_G3S5 ?w0)) \<and>
         \<not> forcing_shutdown (snd (drive cfg_v2 ?e 5 POWER_G3S5 ?w0)) \<and>
         \<not> sys_reset_asserted (snd (drive cfg_v2 ?e 5 POWER_G3S5 ?w0))"
    by (rule power_up_path) (simp_all add: calm_env_def m)
  then have p: "fst (drive cfg_v2 ?e 5 POWER_G3S5 ?w0) =
     [POWER_G3S5, POWER_S5, POWER_S5S3, POWER_S3, POWER_S3S0, POWER_S0]"
    and s3: "sys_reset_asserted (snd (drive cfg_v2 ?e 3 POWER_G3S5 ?w0))"
    by blast+
  have "reachable cfg_v2 (last (fst (drive cfg_v2 ?e 5 POWER_G3S5 ?w0)))
          (snd (drive cfg_v2 ?e 5 POWER_G3S5 ?w0))"
    by (rule reachable_drive [OF g]) (rule prod.collapse [symmetric])
  then have r: "reachable cfg_v2 POWER_S0 (snd (drive cfg_v2 ?e 5 POWER_G3S5 ?w0))"
    by (simp only: p) simp
  from sys_reset_clear_in_S0 [of cfg_v2 "snd (drive cfg_v2 ?e 5 POWER_G3S5 ?w0)"] r
  have "\<not> sys_reset_asserted (snd (drive cfg_v2 ?e 5 POWER_G3S5 ?w0))"
    by blast
  with p s3 r show ?thesis by blast
qed

subsection \<open>A full cycle\<close>

lemma handler_S0S3_forced:
  assumes "forcing_shutdown w"
  shows "fst (power_handle_state cfg e POWER_S0S3 w) = POWER_S3 \<and>
         forcing_shutdown (snd (power_handle_state cfg e POWER_S0S3 w))"
proof -
  let ?w1 = "hook_notify HOOK_CHIPSET_SUSPEND w"
  obtain a w2 where m: "MSLEEP_CHECK_ABORTED_SUSPEND cfg e 20 ?w1 = (a, w2)"
    by (cases "MSLEEP_CHECK_ABORTED_SUSPEND cfg e 20 ?w1")
  obtain b w3 where r: "power_seq_run cfg e True (s0s3_power_seq cfg) w2 = (b, w3)"
    by (cases "power_seq_run cfg e True (s0s3_power_seq cfg) w2")
  from assms have "forcing_shutdown ?w1" by simp
  from msleep_check_forced [OF this, of cfg e 20] m have a: "\<not> a" and f2: "forcing_shutdown w2"
    by simp_all
  from power_seq_run_forced [OF f2, of cfg e True "s0s3_power_seq cfg"] r
  have b: "\<not> b" and f3: "forcing_shutdown w3"
    by simp_all
  from m r a b f3 show ?thesis
    by (simp add: Let_def)
qed

lemma power_down_path:
  assumes "forcing_shutdown w"
  shows "fst (drive cfg e 6 POWER_S0 w) =
           [POWER_S0, POWER_S0S3, POWER_S3, POWER_S3S5, POWER_S5, POWER_S5G3, POWER_G3] \<and>
         forcing_shutdown (snd (drive cfg e 6 POWER_S0 w))"
proof -
  define w2 where "w2 = snd (power_handle_state cfg e POWER_S0S3 w)"
  define w4 where "w4 = snd (power_handle_state cfg e POWER_S3S5 w2)"
  have h1: "power_handle_state cfg e POWER_S0 w = (POWER_S0S3, w)"
    using assms by simp
  have h2: "power_handle_state cfg e POWER_S0S3 w = (POWER_S3, w2)" and f2: "forcing_shutdown w2"
    using handler_S0S3_forced [OF assms, of cfg e] by (simp_all add: w2_def prod_eq_iff)
  have h3: "power_handle_state cfg e POWER_S3 w2 = (POWER_S3S5, w2)"
    using f2 by simp
  have h4: "power_handle_state cfg e POWER_S3S5 w2 = (POWER_S5, w4)"
    by (simp add: w4_def Let_def)
  have f4: "forcing_shutdown w4"
    unfolding w4_def by (rule handler_keeps_forcing) (use f2 in simp_all)
  have h5: "power_handle_state cfg e POWER_S5 w4 = (POWER_S5G3, w4)"
    using f4 by simp
  have h6: "power_handle_state cfg e POWER_S5G3 w4 = (POWER_G3, w4)"
    by simp
  have d0: "drive cfg e 0 s v = ([s], v)" for s v by simp
  have n6: "(6::nat) = Suc (Suc (Suc (Suc (Suc (Suc 0)))))" by simp
  have "drive cfg e 6 POWER_S0 w =
      ([POWER_S0, POWER_S0S3, POWER_S3, POWER_S3S5, POWER_S5, POWER_S5G3, POWER_G3], w4)"
    unfolding n6
    by (simp only: drive_step [OF h1] drive_step [OF h2] drive_step [OF h3]
        drive_step [OF h4] drive_step [OF h5] drive_step [OF h6] d0 fst_conv snd_conv)
  with f4 show ?thesis by simp
qed

subsection \<open>Transitions that return themselves\<close>

lemma transient_states_other_than_S3S0_advance:
  "fst (power_handle_state cfg e POWER_G3S5 w) \<in> {POWER_S5, POWER_G3}"
  "fst (power_handle_state cfg e POWER_S5S3 w) \<in> {POWER_S3, POWER_S3S5}"
  "fst (power_handle_state cfg e POWER_S0S3 w) \<in> {POWER_S3, POWER_S3S0}"
  "fst (power_handle_state cfg e POWER_S3S5 w) = POWER_S5"
  "fst (power_handle_state cfg e POWER_S5G3 w) = POWER_G3"
proof -
  show "fst (power_handle_state cfg e POWER_G3S5 w) \<in> {POWER_S5, POWER_G3}"
    by (simp add: Let_def case_prod_beta)
  show "fst (power_handle_state cfg e POWER_S5S3 w) \<in> {POWER_S3, POWER_S3S5}"
    by (simp add: Let_def case_prod_beta)
  show "fst (power_handle_state cfg e POWER_S3S5 w) = POWER_S5"
    by (simp add: Let_def)
  show "fst (power_handle_state cfg e POWER_S5G3 w) = POWER_G3"
    by simp
  let ?w1 = "hook_notify HOOK_CHIPSET_SUSPEND w"
  obtain a w2 where m: "MSLEEP_CHECK_ABORTED_SUSPEND cfg e 20 ?w1 = (a, w2)"
    by (cases "MSLEEP_CHECK_ABORTED_SUSPEND cfg e 20 ?w1")
  obtain b w3 where r: "power_seq_run cfg e True (s0s3_power_seq cfg) w2 = (b, w3)"
    by (cases "power_seq_run cfg e True (s0s3_power_seq cfg) w2")
  from m r show "fst (power_handle_state cfg e POWER_S0S3 w) \<in> {POWER_S3, POWER_S3S0}"
    by (cases a; cases b) (simp_all add: Let_def)
qed

lemma handler_on_pgood_failure:
  assumes "\<forall>t m. fst (wait_signals_at e t m) \<noteq> EC_SUCCESS"
  shows "fst (power_handle_state cfg e POWER_S3S0 w) = POWER_S3S0"
    and "forcing_shutdown (snd (power_handle_state cfg e POWER_S3S0 w))"
    and "fst (power_handle_state cfg e POWER_S5S3 w) = POWER_S3S5"
    and "forcing_shutdown (snd (power_handle_state cfg e POWER_S5S3 w))"
proof -
  have f: "fst (power_wait_signals e m v) \<noteq> EC_SUCCESS" for m v
    using assms by (simp add: power_wait_signals_def case_prod_beta)
  show "fst (power_handle_state cfg e POWER_S3S0 w) = POWER_S3S0"
    and "forcing_shutdown (snd (power_handle_state cfg e POWER_S3S0 w))"
    using f by (simp_all add: Let_def case_prod_beta)
  show "fst (power_handle_state cfg e POWER_S5S3 w) = POWER_S3S5"
    and "forcing_shutdown (snd (power_handle_state cfg e POWER_S5S3 w))"
    using f by (simp_all add: Let_def case_prod_beta)
qed

lemma handler_S3S0_on_pgood:
  "fst (wait_signals_at e
          (now (snd (power_seq_run cfg e False (s3s0_power_seq cfg) w)) +
           (if sys_reset_asserted w then 10 else 0))
          (IN_PGOOD_S0 cfg)) = EC_SUCCESS \<Longrightarrow>
   fst (power_handle_state cfg e POWER_S3S0 w) = POWER_S0"
  by (cases "sys_reset_asserted w")
     (simp_all add: Let_def case_prod_beta power_wait_signals_def power_seq_run_sys_reset)

subsection \<open>No shutdown request is lost\<close>

lemma keeps_requests_iff:
  "keeps_requests e w w' =
     (now w \<le> now w' \<and>
      (forcing_shutdown w \<or> (\<exists>t. now w < t \<and> t \<le> now w' \<and> shutdown_request_at e t)
         \<longrightarrow> forcing_shutdown w'))"
  by (auto simp add: keeps_requests_def list_ex_iff less_Suc_eq_le Suc_le_eq simp del: upt_Suc)

lemma keeps_requests_refl [simp]: "keeps_requests e w w"
  by (auto simp: keeps_requests_iff)

lemma keeps_requests_trans:
  assumes "keeps_requests e a b" and "keeps_requests e b c"
  shows "keeps_requests e a c"
proof -
  from assms have le: "now a \<le> now b" "now b \<le> now c"
    by (simp_all add: keeps_requests_iff)
  have "forcing_shutdown c"
    if h: "forcing_shutdown a \<or> (\<exists>t. now a < t \<and> t \<le> now c \<and> shutdown_request_at e t)"
  proof -
    from h consider "forcing_shutdown a"
      | t where "now a < t" "t \<le> now b" "shutdown_request_at e t"
      | t where "now b < t" "t \<le> now c" "shutdown_request_at e t"
      by (metis linorder_not_less)
    then show ?thesis
    proof cases
      case 1
      with assms(1) have "forcing_shutdown b" by (simp add: keeps_requests_iff)
      with assms(2) show ?thesis by (simp add: keeps_requests_iff)
    next
      case 2
      with assms(1) have "forcing_shutdown b" by (auto simp: keeps_requests_iff)
      with assms(2) show ?thesis by (simp add: keeps_requests_iff)
    next
      case 3
      with assms(2) show ?thesis by (auto simp: keeps_requests_iff)
    qed
  qed
  with le show ?thesis
    by (simp add: keeps_requests_iff)
qed

lemma keeps_requests_same_time:
  "now w' = now w \<Longrightarrow> (forcing_shutdown w \<longrightarrow> forcing_shutdown w') \<Longrightarrow> keeps_requests e w w'"
  by (auto simp: keeps_requests_iff)

lemma keeps_requests_pass_time [simp]: "keeps_requests e w (pass_time e n w)"
  by (auto simp: keeps_requests_iff pass_time_forcing_shutdown)

lemma keeps_requests_msleep [simp]: "keeps_requests e w (msleep e n w)"
  by (auto simp: keeps_requests_iff msleep_forcing_shutdown)

lemma keeps_requests_step:
  "keeps_requests e w' w'' \<Longrightarrow> keeps_requests e w w' \<Longrightarrow> keeps_requests e w w''"
  by (rule keeps_requests_trans)

lemma keeps_requests_msleep_check:
  "keeps_requests e w (snd (MSLEEP_CHECK_ABORTED_SUSPEND cfg e r w))"
proof (induction cfg e r w rule: MSLEEP_CHECK_ABORTED_SUSPEND.induct)
  case (1 cfg e r w)
  define w1 where "w1 = msleep e (nat (min r SLEEP_INTERVAL_MS)) w"
  have M: "MSLEEP_CHECK_ABORTED_SUSPEND cfg e r w =
      (if \<not> forcing_shutdown w1 \<and> power_get_signals e w1 AND IN_SUSPEND_DEASSERTED cfg \<noteq> 0
       then (True, cprints ''suspend aborted'' w1)
       else if r - SLEEP_INTERVAL_MS > 0
       then MSLEEP_CHECK_ABORTED_SUSPEND cfg e (r - SLEEP_INTERVAL_MS) w1
       else (False, w1))"
    by (subst MSLEEP_CHECK_ABORTED_SUSPEND.simps) (simp only: Let_def w1_def)
  have k1: "keeps_requests e w w1"
    by (simp add: w1_def)
  have kc: "keeps_requests e w (cprints ''suspend aborted'' w1)"
    by (rule keeps_requests_trans [OF k1]) (simp add: keeps_requests_same_time)
  show ?case
  proof (cases "\<not> forcing_shutdown w1 \<and>
      power_get_signals e w1 AND IN_SUSPEND_DEASSERTED cfg \<noteq> 0")
    case True
    with kc show ?thesis
      unfolding M by simp
  next
    case False
    show ?thesis
    proof (cases "r - SLEEP_INTERVAL_MS > 0")
      case True
      from "1.IH" [OF w1_def refl False True] k1
      have "keeps_requests e w
          (snd (MSLEEP_CHECK_ABORTED_SUSPEND cfg e (r - SLEEP_INTERVAL_MS) w1))"
        by (rule keeps_requests_step)
      with False True show ?thesis
        unfolding M by auto
    next
      case nr: False
      with False k1 show ?thesis
        unfolding M by auto
    qed
  qed
qed

lemma keeps_requests_power_seq_run:
  "keeps_requests e w (snd (power_seq_run cfg e b ops w))"
proof (induction ops arbitrary: w)
  case Nil
  show ?case by simp
next
  case (Cons op ops)
  let ?w1 = "gpio_set_level (signal op) (level op) w"
  have k1: "keeps_requests e w ?w1"
    by (simp add: keeps_requests_same_time)
  obtain a w2 where m: "MSLEEP_CHECK_ABORTED_SUSPEND cfg e (uint (delay op)) ?w1 = (a, w2)"
    by (cases "MSLEEP_CHECK_ABORTED_SUSPEND cfg e (uint (delay op)) ?w1")
  from keeps_requests_msleep_check [of e ?w1 cfg "uint (delay op)"] m
  have "keeps_requests e ?w1 w2" by simp
  with k1 have k2: "keeps_requests e w w2" by (rule keeps_requests_trans)
  have k3: "keeps_requests e w (msleep e (unat (delay op)) ?w1)"
    by (rule keeps_requests_trans [OF k1]) simp
  have r1: "keeps_requests e w (snd (power_seq_run cfg e b ops ?w1))"
    by (rule keeps_requests_trans [OF k1 Cons.IH])
  have r2: "keeps_requests e w (snd (power_seq_run cfg e b ops w2))"
    by (rule keeps_requests_trans [OF k2 Cons.IH])
  have r3: "keeps_requests e w (snd (power_seq_run cfg e b ops (msleep e (unat (delay op)) ?w1)))"
    by (rule keeps_requests_trans [OF k3 Cons.IH])
  from m k2 r1 r2 r3 show ?case
    by (cases a; cases b) (simp_all add: Let_def)
qed

lemma keeps_requests_wait:
  "keeps_requests e w (snd (power_wait_signals e m w))"
  "keeps_requests e w (snd (power_wait_signals_timeout e m d w))"
proof -
  have "keeps_requests e w (pass_time e n (log_event ev w))" for n ev
    by (rule keeps_requests_trans [of e w "log_event ev w"])
       (simp_all add: keeps_requests_same_time)
  then show "keeps_requests e w (snd (power_wait_signals e m w))"
    and "keeps_requests e w (snd (power_wait_signals_timeout e m d w))"
    by (simp_all add: power_wait_signals_def power_wait_signals_timeout_def case_prod_beta)
qed

lemma keeps_requests_charger_wait:
  "keeps_requests e w (snd (charger_wait e tries w))"
proof (induction e tries w rule: charger_wait.induct)
  case (1 e tries w)
  show ?case
  proof (cases "charge_prevent_power_on e 0 w \<and> tries < CHARGER_INITIALIZED_TRIES")
    case True
    have "keeps_requests e w (msleep e CHARGER_INITIALIZED_DELAY_MS w)" by simp
    moreover from True "1.IH"
    have "keeps_requests e (msleep e CHARGER_INITIALIZED_DELAY_MS w)
        (snd (charger_wait e (tries + 1) (msleep e CHARGER_INITIALIZED_DELAY_MS w)))"
      by simp
    ultimately have "keeps_requests e w
        (snd (charger_wait e (tries + 1) (msleep e CHARGER_INITIALIZED_DELAY_MS w)))"
      by (rule keeps_requests_trans)
    with True show ?thesis
      by (subst charger_wait.simps) simp
  next
    case False
    then show ?thesis
      by (subst charger_wait.simps) auto
  qed
qed

lemma charger_wait_forcing_shutdown:
  "forcing_shutdown (snd (charger_wait e tries w)) =
     (forcing_shutdown w \<or>
      (\<exists>t. now w < t \<and> t \<le> now (snd (charger_wait e tries w)) \<and> shutdown_request_at e t))"
proof (induction e tries w rule: charger_wait.induct)
  case (1 e tries w)
  let ?w1 = "msleep e CHARGER_INITIALIZED_DELAY_MS w"
  show ?case
  proof (cases "charge_prevent_power_on e 0 w \<and> tries < CHARGER_INITIALIZED_TRIES")
    case True
    then have u: "charger_wait e tries w = charger_wait e (tries + 1) ?w1"
      by (subst charger_wait.simps) simp
    let ?w2 = "snd (charger_wait e (tries + 1) ?w1)"
    from True "1.IH" have ih: "forcing_shutdown ?w2 =
       (forcing_shutdown ?w1 \<or> (\<exists>t. now ?w1 < t \<and> t \<le> now ?w2 \<and> shutdown_request_at e t))"
      by simp
    have le: "now ?w1 \<le> now ?w2"
      using keeps_requests_charger_wait [of e ?w1 "tries + 1"] by (simp add: keeps_requests_iff)
    have n1: "now ?w1 = now w + CHARGER_INITIALIZED_DELAY_MS" by simp
    have f1: "forcing_shutdown ?w1 = (forcing_shutdown w \<or>
        (\<exists>t. now w < t \<and> t \<le> now ?w1 \<and> shutdown_request_at e t))"
      by (simp add: msleep_forcing_shutdown)
    have "((\<exists>t. now w < t \<and> t \<le> now ?w1 \<and> shutdown_request_at e t) \<or>
           (\<exists>t. now ?w1 < t \<and> t \<le> now ?w2 \<and> shutdown_request_at e t)) =
          (\<exists>t. now w < t \<and> t \<le> now ?w2 \<and> shutdown_request_at e t)"
    proof (intro iffI)
      assume "(\<exists>t. now w < t \<and> t \<le> now ?w1 \<and> shutdown_request_at e t) \<or>
           (\<exists>t. now ?w1 < t \<and> t \<le> now ?w2 \<and> shutdown_request_at e t)"
      then show "\<exists>t. now w < t \<and> t \<le> now ?w2 \<and> shutdown_request_at e t"
      proof
        assume "\<exists>t. now w < t \<and> t \<le> now ?w1 \<and> shutdown_request_at e t"
        then obtain t where "now w < t" "t \<le> now ?w1" "shutdown_request_at e t" by blast
        with le have "now w < t \<and> t \<le> now ?w2 \<and> shutdown_request_at e t" by simp
        then show ?thesis ..
      next
        assume "\<exists>t. now ?w1 < t \<and> t \<le> now ?w2 \<and> shutdown_request_at e t"
        then obtain t where "now ?w1 < t" "t \<le> now ?w2" "shutdown_request_at e t" by blast
        with n1 have "now w < t \<and> t \<le> now ?w2 \<and> shutdown_request_at e t" by simp
        then show ?thesis ..
      qed
    next
      assume "\<exists>t. now w < t \<and> t \<le> now ?w2 \<and> shutdown_request_at e t"
      then obtain t where t: "now w < t" "t \<le> now ?w2" "shutdown_request_at e t" by blast
      show "(\<exists>t. now w < t \<and> t \<le> now ?w1 \<and> shutdown_request_at e t) \<or>
           (\<exists>t. now ?w1 < t \<and> t \<le> now ?w2 \<and> shutdown_request_at e t)"
      proof (cases "t \<le> now ?w1")
        case True
        with t show ?thesis by blast
      next
        case False
        then have "now ?w1 < t" by simp
        with t show ?thesis by blast
      qed
    qed
    with ih f1 show ?thesis
      unfolding u by blast
  next
    case False
    then have "charger_wait e tries w = (if charge_prevent_power_on e 0 w then tries + 1 else tries, w)"
      by (subst charger_wait.simps) auto
    then show ?thesis by auto
  qed
qed


lemma keeps_requests_handler:
  assumes "s \<noteq> POWER_G3S5"
  shows "keeps_requests e w (snd (power_handle_state cfg e s w))"
proof (cases s)
  case POWER_S0
  from keeps_requests_wait(2) [of e w "IN_PGOOD_AP cfg OR IN_PGOOD_SYS cfg"
      PGOOD_AP_DEBOUNCE_TIMEOUT]
  show ?thesis
    unfolding POWER_S0 by (simp add: case_prod_beta)
next
  case POWER_S5S3
  let ?w1 = "snd (power_seq_run cfg e False (s5s3_power_seq cfg) w)"
  let ?w2 = "?w1\<lparr>sys_reset_asserted := True\<rparr>"
  let ?w3 = "snd (power_wait_signals e (IN_PGOOD_S3 cfg) ?w2)"
  have "keeps_requests e w ?w1" by (rule keeps_requests_power_seq_run)
  moreover have "keeps_requests e ?w1 ?w2" by (simp add: keeps_requests_same_time)
  ultimately have "keeps_requests e w ?w2" by (rule keeps_requests_trans)
  moreover have "keeps_requests e ?w2 ?w3" by (rule keeps_requests_wait)
  ultimately have k3: "keeps_requests e w ?w3" by (rule keeps_requests_trans)
  have "keeps_requests e w (chipset_force_shutdown ?w3)"
    by (rule keeps_requests_trans [OF k3]) (simp add: keeps_requests_same_time)
  moreover have "keeps_requests e w (hook_notify HOOK_CHIPSET_STARTUP ?w3)"
    by (rule keeps_requests_trans [OF k3]) (simp add: keeps_requests_same_time)
  ultimately show ?thesis
    unfolding POWER_S5S3 by (simp add: Let_def case_prod_beta)
next
  case POWER_S3S0
  let ?w1 = "snd (power_seq_run cfg e False (s3s0_power_seq cfg) w)"
  let ?w2 = "if sys_reset_asserted ?w1
             then (gpio_set_level GPIO_SYS_RST_L 1 (msleep e 10 ?w1))\<lparr>sys_reset_asserted := False\<rparr>
             else ?w1"
  let ?w3 = "snd (power_wait_signals e (IN_PGOOD_S0 cfg) ?w2)"
  have k1: "keeps_requests e w ?w1" by (rule keeps_requests_power_seq_run)
  have "keeps_requests e ?w1 (msleep e 10 ?w1)" by simp
  moreover have "keeps_requests e (msleep e 10 ?w1)
      ((gpio_set_level GPIO_SYS_RST_L 1 (msleep e 10 ?w1))\<lparr>sys_reset_asserted := False\<rparr>)"
    by (rule keeps_requests_same_time) simp_all
  ultimately have "keeps_requests e ?w1
      ((gpio_set_level GPIO_SYS_RST_L 1 (msleep e 10 ?w1))\<lparr>sys_reset_asserted := False\<rparr>)"
    by (rule keeps_requests_trans)
  then have "keeps_requests e ?w1 ?w2" by simp
  with k1 have "keeps_requests e w ?w2" by (rule keeps_requests_trans)
  moreover have "keeps_requests e ?w2 ?w3" by (rule keeps_requests_wait)
  ultimately have k3: "keeps_requests e w ?w3" by (rule keeps_requests_trans)
  have "keeps_requests e w (chipset_force_shutdown ?w3)"
    by (rule keeps_requests_trans [OF k3]) (simp add: keeps_requests_same_time)
  moreover have "keeps_requests e w (disable_sleep (hook_notify HOOK_CHIPSET_RESUME ?w3))"
    by (rule keeps_requests_trans [OF k3]) (simp add: keeps_requests_same_time)
  ultimately show ?thesis
    unfolding POWER_S3S0 by (simp add: Let_def case_prod_beta)
next
  case POWER_S0S3
  let ?w1 = "hook_notify HOOK_CHIPSET_SUSPEND w"
  obtain a w2 where m: "MSLEEP_CHECK_ABORTED_SUSPEND cfg e 20 ?w1 = (a, w2)"
    by (cases "MSLEEP_CHECK_ABORTED_SUSPEND cfg e 20 ?w1")
  obtain b w3 where r: "power_seq_run cfg e True (s0s3_power_seq cfg) w2 = (b, w3)"
    by (cases "power_seq_run cfg e True (s0s3_power_seq cfg) w2")
  have "keeps_requests e w ?w1" by (simp add: keeps_requests_same_time)
  moreover from keeps_requests_msleep_check [of e ?w1 cfg 20] m
  have "keeps_requests e ?w1 w2" by simp
  ultimately have k2: "keeps_requests e w w2" by (rule keeps_requests_trans)
  from keeps_requests_power_seq_run [of e w2 cfg True "s0s3_power_seq cfg"] r
  have "keeps_requests e w2 w3" by simp
  with k2 have k3: "keeps_requests e w w3" by (rule keeps_requests_trans)
  have k4: "keeps_requests e w (enable_sleep w3)"
    by (rule keeps_requests_trans [OF k3]) (simp add: keeps_requests_same_time)
  have k5: "keeps_requests e w
      (hook_call_deferred (- 1) ((enable_sleep w3)\<lparr>forcing_shutdown := True\<rparr>))"
    by (rule keeps_requests_trans [OF k3]) (simp add: keeps_requests_same_time)
  from m r k2 k3 k4 k5 show ?thesis
    unfolding POWER_S0S3 by (cases a; cases b) (simp_all add: Let_def)
next
  case POWER_S3S5
  have "keeps_requests e w (hook_notify HOOK_CHIPSET_SHUTDOWN w)"
    by (simp add: keeps_requests_same_time)
  moreover have "keeps_requests e (hook_notify HOOK_CHIPSET_SHUTDOWN w)
      (snd (power_seq_run cfg e False (s3s5_power_seq cfg) (hook_notify HOOK_CHIPSET_SHUTDOWN w)))"
    by (rule keeps_requests_power_seq_run)
  ultimately show ?thesis
    unfolding POWER_S3S5 by (simp add: Let_def keeps_requests_trans)
qed (use assms in simp_all)

subsection \<open>The outcomes of G3S5\<close>

lemma handler_G3S5_exhausted:
  assumes "\<forall>k \<le> 40. charge_prevent_power_on_at e (now w + 100 * k) 0"
  shows "power_handle_state cfg e POWER_G3S5 w =
      (POWER_G3, chipset_force_shutdown (cprints ''power-up inhibited''
         ((msleep e 100 ^^ 40) (w\<lparr>forcing_shutdown := False\<rparr>))))"
proof -
  let ?w1 = "w\<lparr>forcing_shutdown := False\<rparr>"
  have "charger_wait e 0 ?w1 =
     (CHARGER_INITIALIZED_TRIES + 1, (msleep e CHARGER_INITIALIZED_DELAY_MS ^^ 40) ?w1)"
    by (rule charger_wait_exhausted)
       (use assms in \<open>simp_all add: CHARGER_INITIALIZED_TRIES_def CHARGER_INITIALIZED_DELAY_MS_def\<close>)
  then show ?thesis
    by (simp add: Let_def CHARGER_INITIALIZED_DELAY_MS_def)
qed

lemma handler_G3S5_opens:
  assumes "k \<le> 40"
    and "\<not> charge_prevent_power_on_at e (now w + 100 * k) 0"
    and "\<forall>j < k. charge_prevent_power_on_at e (now w + 100 * j) 0"
  shows "power_handle_state cfg e POWER_G3S5 w =
      (if charge_want_shutdown_at e (now w + 100 * k)
       then (POWER_G3, chipset_force_shutdown (cprints ''power-up inhibited''
               ((msleep e 100 ^^ k) (w\<lparr>forcing_shutdown := False\<rparr>))))
       else (POWER_S5, (msleep e 100 ^^ k) (w\<lparr>forcing_shutdown := False\<rparr>)))"
proof -
  let ?w1 = "w\<lparr>forcing_shutdown := False\<rparr>"
  have "charger_wait e 0 ?w1 = (0 + int k, (msleep e CHARGER_INITIALIZED_DELAY_MS ^^ k) ?w1)"
    by (rule charger_wait_opens)
       (use assms in \<open>simp_all add: CHARGER_INITIALIZED_TRIES_def CHARGER_INITIALIZED_DELAY_MS_def\<close>)
  then show ?thesis
    using assms(1) by (simp add: Let_def charge_want_shutdown_def CHARGER_INITIALIZED_TRIES_def
        CHARGER_INITIALIZED_DELAY_MS_def)
qed

lemma handler_G3S5_forcing_shutdown:
  "forcing_shutdown (snd (power_handle_state cfg e POWER_G3S5 w)) =
     (fst (power_handle_state cfg e POWER_G3S5 w) = POWER_G3 \<or>
      (\<exists>t. now w < t \<and> t \<le> now (snd (power_handle_state cfg e POWER_G3S5 w)) \<and>
           shutdown_request_at e t))"
proof -
  let ?w1 = "w\<lparr>forcing_shutdown := False\<rparr>"
  obtain tries w2 where c: "charger_wait e 0 ?w1 = (tries, w2)"
    by (cases "charger_wait e 0 ?w1")
  from charger_wait_forcing_shutdown [of e 0 ?w1] c
  have f: "forcing_shutdown w2 =
      (\<exists>t. now w < t \<and> t \<le> now w2 \<and> shutdown_request_at e t)"
    by simp
  show ?thesis
  proof (cases "charge_want_shutdown e w2 \<or> tries > CHARGER_INITIALIZED_TRIES")
    case True
    with c have "power_handle_state cfg e POWER_G3S5 w =
        (POWER_G3, chipset_force_shutdown (cprints ''power-up inhibited'' w2))"
      by (simp add: Let_def)
    then show ?thesis by simp
  next
    case False
    with c have "power_handle_state cfg e POWER_G3S5 w = (POWER_S5, w2)"
      by (simp add: Let_def)
    with f show ?thesis by simp
  qed
qed

subsection \<open>Persistence of a shutdown request\<close>

text \<open>
  C9. A shutdown request is not lost before the next power-up attempt begins. In every
  state but G3S5, if \<open>forcing_shutdown\<close> is set at the call of \<open>power_handle_state\<close>,
  or another task requests a shutdown while the call sleeps or waits, the flag is set at
  the return. Time passing keeps the flag and adds the requests made meanwhile, and every
  other entry point of the module (\<open>chipset_force_shutdown\<close>, the deferred
  \<open>force_shutdown\<close>, \<open>chipset_reset\<close>, \<open>power_chipset_init\<close>, the power button and
  lid hooks) keeps a set flag set. The G3S5 case is the only one that clears it, and it
  does so at entry, before the charger gate is polled: its result is that of a call with
  the flag clear, and at its return the flag is set exactly when the power-up was
  inhibited (the result is G3) or a shutdown was requested during the call, so that the
  flag at the call never survives and a request made during the charger retries is never
  wiped; when the charger lets the power-up proceed at the first poll the state comes back
  unchanged but for the cleared flag.
\<close>

theorem forcing_shutdown_persists:
  "(\<forall>s. s \<noteq> POWER_G3S5 \<and>
        (forcing_shutdown w \<or>
         (\<exists>t. now w < t \<and> t \<le> now (snd (power_handle_state cfg e s w)) \<and>
              shutdown_request_at e t)) \<longrightarrow>
        forcing_shutdown (snd (power_handle_state cfg e s w))) \<and>
   forcing_shutdown (pass_time e n w) =
     (forcing_shutdown w \<or> (\<exists>t. now w < t \<and> t \<le> now w + n \<and> shutdown_request_at e t)) \<and>
   (forcing_shutdown w \<longrightarrow>
      forcing_shutdown (chipset_force_shutdown w) \<and>
      forcing_shutdown (force_shutdown w) \<and>
      forcing_shutdown (chipset_reset e irq cold w) \<and>
      forcing_shutdown (snd (power_chipset_init cfg e w)) \<and>
      forcing_shutdown (power_button_changed e off w) \<and>
      forcing_shutdown (lid_changed is_open off w)) \<and>
   power_handle_state cfg e POWER_G3S5 w =
     power_handle_state cfg e POWER_G3S5 (w\<lparr>forcing_shutdown := False\<rparr>) \<and>
   forcing_shutdown (snd (power_handle_state cfg e POWER_G3S5 w)) =
     (fst (power_handle_state cfg e POWER_G3S5 w) = POWER_G3 \<or>
      (\<exists>t. now w < t \<and> t \<le> now (snd (power_handle_state cfg e POWER_G3S5 w)) \<and>
           shutdown_request_at e t)) \<and>
   (\<not> charge_prevent_power_on e 0 w \<and> \<not> charge_want_shutdown e w \<longrightarrow>
      power_handle_state cfg e POWER_G3S5 w = (POWER_S5, w\<lparr>forcing_shutdown := False\<rparr>))"
proof (intro conjI allI impI)
  fix s
  assume a: "s \<noteq> POWER_G3S5 \<and>
        (forcing_shutdown w \<or>
         (\<exists>t. now w < t \<and> t \<le> now (snd (power_handle_state cfg e s w)) \<and>
              shutdown_request_at e t))"
  then have "keeps_requests e w (snd (power_handle_state cfg e s w))"
    by (simp add: keeps_requests_handler)
  with a show "forcing_shutdown (snd (power_handle_state cfg e s w))"
    unfolding keeps_requests_iff by blast
next
  show "forcing_shutdown (pass_time e n w) =
     (forcing_shutdown w \<or> (\<exists>t. now w < t \<and> t \<le> now w + n \<and> shutdown_request_at e t))"
    by (rule pass_time_forcing_shutdown)
next
  show "power_handle_state cfg e POWER_G3S5 w =
     power_handle_state cfg e POWER_G3S5 (w\<lparr>forcing_shutdown := False\<rparr>)"
    by simp
next
  show "forcing_shutdown (snd (power_handle_state cfg e POWER_G3S5 w)) =
     (fst (power_handle_state cfg e POWER_G3S5 w) = POWER_G3 \<or>
      (\<exists>t. now w < t \<and> t \<le> now (snd (power_handle_state cfg e POWER_G3S5 w)) \<and>
           shutdown_request_at e t))"
    by (rule handler_G3S5_forcing_shutdown)
next
  assume "\<not> charge_prevent_power_on e 0 w \<and> \<not> charge_want_shutdown e w"
  then show "power_handle_state cfg e POWER_G3S5 w = (POWER_S5, w\<lparr>forcing_shutdown := False\<rparr>)"
    by (subst power_handle_state.simps, subst charger_wait.simps)
       (simp add: charge_prevent_power_on_def charge_want_shutdown_def
          CHARGER_INITIALIZED_TRIES_def)
qed simp_all

theorem forcing_shutdown_persists_witness:
  "forcing_shutdown (boot_world\<lparr>forcing_shutdown := True\<rparr>) \<and>
   forcing_shutdown (snd (power_handle_state cfg_v2 (calm_env (\<lambda>t. 15)) POWER_S0S3
                            (boot_world\<lparr>forcing_shutdown := True\<rparr>))) \<and>
   forcing_shutdown (snd (power_handle_state cfg_v2 (calm_env (\<lambda>t. 15)) POWER_S3S0
                            (boot_world\<lparr>forcing_shutdown := True\<rparr>))) \<and>
   power_handle_state cfg_v2 (calm_env (\<lambda>t. 15)) POWER_G3S5
     (boot_world\<lparr>forcing_shutdown := True\<rparr>) = (POWER_S5, boot_world) \<and>
   fst (power_handle_state cfg_v2 (request_env 150) POWER_G3S5 boot_world) = POWER_S5 \<and>
   now (snd (power_handle_state cfg_v2 (request_env 150) POWER_G3S5 boot_world)) = 300 \<and>
   forcing_shutdown (snd (power_handle_state cfg_v2 (request_env 150) POWER_G3S5 boot_world)) \<and>
   fst (power_handle_state cfg_v2 (request_env 150) POWER_G3S5
          (boot_world\<lparr>forcing_shutdown := True, now := 200\<rparr>)) = POWER_S5 \<and>
   \<not> forcing_shutdown (snd (power_handle_state cfg_v2 (request_env 150) POWER_G3S5
          (boot_world\<lparr>forcing_shutdown := True, now := 200\<rparr>)))"
proof -
  let ?w = "boot_world\<lparr>forcing_shutdown := True\<rparr>"
  let ?e = "calm_env (\<lambda>t. 15)"
  let ?r = "request_env 150"
  let ?v = "boot_world\<lparr>forcing_shutdown := True, now := 200\<rparr>"
  have h: "forcing_shutdown ?w" by simp
  have c: "\<not> charge_prevent_power_on ?e 0 ?w \<and> \<not> charge_want_shutdown ?e ?w"
    by (simp add: charge_prevent_power_on_def charge_want_shutdown_def calm_env_def)
  have b: "?w\<lparr>forcing_shutdown := False\<rparr> = boot_world"
    by (simp add: boot_world_def)
  have n: "now boot_world = 0" "now ?v = 200"
    by (simp_all add: boot_world_def)
  have re: "charge_prevent_power_on_at ?r t 0 = (t < 250)" "\<not> charge_want_shutdown_at ?r t"
      "shutdown_request_at ?r t = (t = 150)" for t
    by (simp_all add: request_env_def charger_env_def calm_env_def)
  from forcing_shutdown_persists [of ?w cfg_v2 ?e] h c
  have 1: "forcing_shutdown (snd (power_handle_state cfg_v2 ?e POWER_S0S3 ?w)) \<and>
        forcing_shutdown (snd (power_handle_state cfg_v2 ?e POWER_S3S0 ?w)) \<and>
        power_handle_state cfg_v2 ?e POWER_G3S5 ?w = (POWER_S5, ?w\<lparr>forcing_shutdown := False\<rparr>)"
    by blast
  have "power_handle_state cfg_v2 ?r POWER_G3S5 boot_world =
      (POWER_S5, (msleep ?r 100 ^^ 3) (boot_world\<lparr>forcing_shutdown := False\<rparr>))"
    using handler_G3S5_opens [of 3 ?r boot_world cfg_v2] by (simp add: re n)
  then have 2: "fst (power_handle_state cfg_v2 ?r POWER_G3S5 boot_world) = POWER_S5"
      "now (snd (power_handle_state cfg_v2 ?r POWER_G3S5 boot_world)) = 300"
    by (simp_all add: n)
  have "power_handle_state cfg_v2 ?r POWER_G3S5 ?v =
      (POWER_S5, (msleep ?r 100 ^^ 1) (?v\<lparr>forcing_shutdown := False\<rparr>))"
    using handler_G3S5_opens [of 1 ?r ?v cfg_v2] by (simp add: re n)
  then have 3: "fst (power_handle_state cfg_v2 ?r POWER_G3S5 ?v) = POWER_S5"
      "now (snd (power_handle_state cfg_v2 ?r POWER_G3S5 ?v)) = 300"
    by (simp_all add: n)
  from forcing_shutdown_persists [of boot_world cfg_v2 ?r]
  have "forcing_shutdown (snd (power_handle_state cfg_v2 ?r POWER_G3S5 boot_world)) =
     (fst (power_handle_state cfg_v2 ?r POWER_G3S5 boot_world) = POWER_G3 \<or>
      (\<exists>t. now boot_world < t \<and> t \<le> now (snd (power_handle_state cfg_v2 ?r POWER_G3S5 boot_world)) \<and>
           shutdown_request_at ?r t))"
    by blast
  then have 4: "forcing_shutdown (snd (power_handle_state cfg_v2 ?r POWER_G3S5 boot_world))"
    unfolding 2 by (simp add: re n)
  from forcing_shutdown_persists [of ?v cfg_v2 ?r]
  have "forcing_shutdown (snd (power_handle_state cfg_v2 ?r POWER_G3S5 ?v)) =
     (fst (power_handle_state cfg_v2 ?r POWER_G3S5 ?v) = POWER_G3 \<or>
      (\<exists>t. now ?v < t \<and> t \<le> now (snd (power_handle_state cfg_v2 ?r POWER_G3S5 ?v)) \<and>
           shutdown_request_at ?r t))"
    by blast
  then have 5: "\<not> forcing_shutdown (snd (power_handle_state cfg_v2 ?r POWER_G3S5 ?v))"
    unfolding 3 by (simp add: re n)
  from h 1 2 4 3 5 show ?thesis
    by (simp add: b del: power_handle_state.simps)
qed

subsection \<open>When a suspend is aborted\<close>

lemma msleep_check_aborts_iff:
  "fst (MSLEEP_CHECK_ABORTED_SUSPEND cfg e r w) =
     (\<exists>p \<in> set (check_points e r w). run_signal_reasserted cfg e p)"
proof (cases "find (run_signal_reasserted cfg e) (check_points e r w)")
  case None
  then have "\<not> (\<exists>p \<in> set (check_points e r w). run_signal_reasserted cfg e p)"
    by (simp add: find_None_iff)
  with None show ?thesis
    by (simp add: msleep_check_find)
next
  case (Some p)
  then have "p \<in> set (check_points e r w) \<and> run_signal_reasserted cfg e p"
    by (auto simp: find_Some_iff)
  with Some show ?thesis
    by (auto simp: msleep_check_find)
qed

lemma power_seq_run_single:
  "fst (power_seq_run cfg e True [op] w) =
     (delay op \<noteq> 0 \<and>
      (\<exists>p \<in> set (check_points e (uint (delay op)) (gpio_set_level (signal op) (level op) w)).
         run_signal_reasserted cfg e p))"
proof -
  let ?w1 = "gpio_set_level (signal op) (level op) w"
  obtain a w2 where m: "MSLEEP_CHECK_ABORTED_SUSPEND cfg e (uint (delay op)) ?w1 = (a, w2)"
    by (cases "MSLEEP_CHECK_ABORTED_SUSPEND cfg e (uint (delay op)) ?w1")
  from msleep_check_aborts_iff [of cfg e "uint (delay op)" ?w1] m
  have "a = (\<exists>p \<in> set (check_points e (uint (delay op)) ?w1). run_signal_reasserted cfg e p)"
    by simp
  with m show ?thesis
    by (cases a) (simp_all add: Let_def)
qed

lemma power_seq_run_aborts_iff:
  "fst (power_seq_run cfg e True ops w) =
     (\<exists>i < length ops.
        delay (ops ! i) \<noteq> 0 \<and>
        \<not> fst (power_seq_run cfg e True (take i ops) w) \<and>
        (\<exists>p \<in> set (check_points e (uint (delay (ops ! i)))
                      (gpio_set_level (signal (ops ! i)) (level (ops ! i))
                         (snd (power_seq_run cfg e True (take i ops) w)))).
           run_signal_reasserted cfg e p))"
  (is "?L ops = (\<exists>i < length ops. ?P ops i)")
proof (induction ops rule: rev_induct)
  case Nil
  show ?case by simp
next
  case (snoc x xs)
  obtain a w1 where r: "power_seq_run cfg e True xs w = (a, w1)"
    by (cases "power_seq_run cfg e True xs w")
  have L: "?L (xs @ [x]) = (a \<or> fst (power_seq_run cfg e True [x] w1))"
    using r by (cases a) (simp_all add: power_seq_run_append del: power_seq_run.simps)
  have old: "?P (xs @ [x]) i = ?P xs i" if "i < length xs" for i
    using that by (simp add: nth_append del: power_seq_run.simps)
  have new: "?P (xs @ [x]) (length xs) = (\<not> a \<and> fst (power_seq_run cfg e True [x] w1))"
    using r by (auto simp add: power_seq_run_single simp del: power_seq_run.simps)
  have split: "(\<exists>i < Suc n. Q i) = ((\<exists>i < n. Q i) \<or> Q n)" for Q :: "nat \<Rightarrow> bool" and n
    by (auto simp: less_Suc_eq)
  have len: "length (xs @ [x]) = Suc (length xs)" by simp
  have "(\<exists>i < length (xs @ [x]). ?P (xs @ [x]) i) =
        ((\<exists>i < length xs. ?P (xs @ [x]) i) \<or> ?P (xs @ [x]) (length xs))"
    unfolding len by (rule split)
  also have "(\<exists>i < length xs. ?P (xs @ [x]) i) = (\<exists>i < length xs. ?P xs i)"
    using old by blast
  also have "\<dots> = a"
    using snoc.IH r by simp
  finally show ?case
    unfolding L new by blast
qed


subsection \<open>What each transition resolves to\<close>

text \<open>
  C7, as amended. A call of \<open>power_handle_state\<close> on a transient state returns (every
  loop in it is bounded), and what it returns is tied to what happened:
  \<^item> G3S5 returns G3 when the power-up is inhibited, that is when all 41 polls of the
    charger gate prevent it, or when the charger wants a shutdown at the first poll that
    allows it; otherwise it returns S5;
  \<^item> S5S3 returns S3 when the wait for the S3 power-good signals, started after the
    sequence, succeeds, and S3S5 when it fails;
  \<^item> S0S3 returns S3S0 when the suspend is aborted, that is when \<open>forcing_shutdown\<close> is
    clear and the run signal is up at a check of the initial 20 ms window or, the window
    and the steps before it having completed, at a check of the delay of a step of the
    S0S3 table; otherwise it returns S3;
  \<^item> S3S5 returns S5 and S5G3 returns G3;
  \<^item> none of these five returns the state it was called in;
  \<^item> S3S0 returns S0 when the wait for the S0 power-good signals (started after the
    sequence and the release of the reset line) succeeds.
\<close>

theorem transient_states_resolve:
  "((\<forall>k \<le> 40. charge_prevent_power_on_at e (now w + 100 * k) 0) \<longrightarrow>
      fst (power_handle_state cfg e POWER_G3S5 w) = POWER_G3) \<and>
   (\<forall>k \<le> 40.
      \<not> charge_prevent_power_on_at e (now w + 100 * k) 0 \<and>
      (\<forall>j < k. charge_prevent_power_on_at e (now w + 100 * j) 0) \<longrightarrow>
      fst (power_handle_state cfg e POWER_G3S5 w) =
        (if charge_want_shutdown_at e (now w + 100 * k) then POWER_G3 else POWER_S5)) \<and>
   fst (power_handle_state cfg e POWER_S5S3 w) =
     (if fst (wait_signals_at e
                (now (snd (power_seq_run cfg e False (s5s3_power_seq cfg) w)))
                (IN_PGOOD_S3 cfg)) = EC_SUCCESS
      then POWER_S3 else POWER_S3S5) \<and>
   fst (power_handle_state cfg e POWER_S0S3 w) =
     (if (\<exists>p \<in> set (check_points e 20 (hook_notify HOOK_CHIPSET_SUSPEND w)).
            run_signal_reasserted cfg e p) \<or>
         (\<exists>i < length (s0s3_power_seq cfg).
            delay (s0s3_power_seq cfg ! i) \<noteq> 0 \<and>
            \<not> fst (power_seq_run cfg e True (take i (s0s3_power_seq cfg))
                     (snd (MSLEEP_CHECK_ABORTED_SUSPEND cfg e 20
                             (hook_notify HOOK_CHIPSET_SUSPEND w)))) \<and>
            (\<exists>p \<in> set (check_points e (uint (delay (s0s3_power_seq cfg ! i)))
                          (gpio_set_level (signal (s0s3_power_seq cfg ! i))
                             (level (s0s3_power_seq cfg ! i))
                             (snd (power_seq_run cfg e True (take i (s0s3_power_seq cfg))
                                     (snd (MSLEEP_CHECK_ABORTED_SUSPEND cfg e 20
                                             (hook_notify HOOK_CHIPSET_SUSPEND w))))))).
               run_signal_reasserted cfg e p))
      then POWER_S3S0 else POWER_S3) \<and>
   fst (power_handle_state cfg e POWER_S3S5 w) = POWER_S5 \<and>
   fst (power_handle_state cfg e POWER_S5G3 w) = POWER_G3 \<and>
   (\<forall>s \<in> {POWER_G3S5, POWER_S5S3, POWER_S0S3, POWER_S3S5, POWER_S5G3}.
      fst (power_handle_state cfg e s w) \<noteq> s) \<and>
   (fst (wait_signals_at e
           (now (snd (power_seq_run cfg e False (s3s0_power_seq cfg) w)) +
            (if sys_reset_asserted w then 10 else 0))
           (IN_PGOOD_S0 cfg)) = EC_SUCCESS \<longrightarrow>
    fst (power_handle_state cfg e POWER_S3S0 w) = POWER_S0)"
proof (intro conjI)
  show "(\<forall>k \<le> 40. charge_prevent_power_on_at e (now w + 100 * k) 0) \<longrightarrow>
      fst (power_handle_state cfg e POWER_G3S5 w) = POWER_G3"
    by (auto simp add: handler_G3S5_exhausted simp del: power_handle_state.simps)
next
  show "\<forall>k \<le> 40.
      \<not> charge_prevent_power_on_at e (now w + 100 * k) 0 \<and>
      (\<forall>j < k. charge_prevent_power_on_at e (now w + 100 * j) 0) \<longrightarrow>
      fst (power_handle_state cfg e POWER_G3S5 w) =
        (if charge_want_shutdown_at e (now w + 100 * k) then POWER_G3 else POWER_S5)"
  proof (intro allI impI)
    fix k :: nat
    assume "k \<le> 40"
      and "\<not> charge_prevent_power_on_at e (now w + 100 * k) 0 \<and>
        (\<forall>j < k. charge_prevent_power_on_at e (now w + 100 * j) 0)"
    then have "power_handle_state cfg e POWER_G3S5 w =
      (if charge_want_shutdown_at e (now w + 100 * k)
       then (POWER_G3, chipset_force_shutdown (cprints ''power-up inhibited''
               ((msleep e 100 ^^ k) (w\<lparr>forcing_shutdown := False\<rparr>))))
       else (POWER_S5, (msleep e 100 ^^ k) (w\<lparr>forcing_shutdown := False\<rparr>)))"
      by (intro handler_G3S5_opens) simp_all
    then show "fst (power_handle_state cfg e POWER_G3S5 w) =
        (if charge_want_shutdown_at e (now w + 100 * k) then POWER_G3 else POWER_S5)"
      by (simp del: power_handle_state.simps)
  qed
next
  show "fst (power_handle_state cfg e POWER_S5S3 w) =
     (if fst (wait_signals_at e
                (now (snd (power_seq_run cfg e False (s5s3_power_seq cfg) w)))
                (IN_PGOOD_S3 cfg)) = EC_SUCCESS
      then POWER_S3 else POWER_S3S5)"
    by (simp add: Let_def case_prod_beta power_wait_signals_def)
next
  let ?w1 = "hook_notify HOOK_CHIPSET_SUSPEND w"
  let ?ops = "s0s3_power_seq cfg"
  obtain a w2 where m: "MSLEEP_CHECK_ABORTED_SUSPEND cfg e 20 ?w1 = (a, w2)"
    by (cases "MSLEEP_CHECK_ABORTED_SUSPEND cfg e 20 ?w1")
  obtain b w3 where r: "power_seq_run cfg e True ?ops w2 = (b, w3)"
    by (cases "power_seq_run cfg e True ?ops w2")
  from msleep_check_aborts_iff [of cfg e 20 ?w1] m
  have a: "a = (\<exists>p \<in> set (check_points e 20 ?w1). run_signal_reasserted cfg e p)"
    by simp
  from power_seq_run_aborts_iff [of cfg e ?ops w2] r
  have b: "b = (\<exists>i < length ?ops.
            delay (?ops ! i) \<noteq> 0 \<and>
            \<not> fst (power_seq_run cfg e True (take i ?ops) w2) \<and>
            (\<exists>p \<in> set (check_points e (uint (delay (?ops ! i)))
                          (gpio_set_level (signal (?ops ! i)) (level (?ops ! i))
                             (snd (power_seq_run cfg e True (take i ?ops) w2)))).
               run_signal_reasserted cfg e p))"
    by simp
  have w2: "snd (MSLEEP_CHECK_ABORTED_SUSPEND cfg e 20 ?w1) = w2"
    using m by simp
  have "fst (power_handle_state cfg e POWER_S0S3 w) = (if a \<or> b then POWER_S3S0 else POWER_S3)"
    using m r by (cases a; cases b) (simp_all add: Let_def)
  then show "fst (power_handle_state cfg e POWER_S0S3 w) =
     (if (\<exists>p \<in> set (check_points e 20 ?w1). run_signal_reasserted cfg e p) \<or>
         (\<exists>i < length ?ops.
            delay (?ops ! i) \<noteq> 0 \<and>
            \<not> fst (power_seq_run cfg e True (take i ?ops)
                     (snd (MSLEEP_CHECK_ABORTED_SUSPEND cfg e 20 ?w1))) \<and>
            (\<exists>p \<in> set (check_points e (uint (delay (?ops ! i)))
                          (gpio_set_level (signal (?ops ! i)) (level (?ops ! i))
                             (snd (power_seq_run cfg e True (take i ?ops)
                                     (snd (MSLEEP_CHECK_ABORTED_SUSPEND cfg e 20 ?w1)))))).
               run_signal_reasserted cfg e p))
      then POWER_S3S0 else POWER_S3)"
    unfolding w2 a b .
next
  show "fst (power_handle_state cfg e POWER_S3S5 w) = POWER_S5"
    by (rule transient_states_other_than_S3S0_advance)
next
  show "fst (power_handle_state cfg e POWER_S5G3 w) = POWER_G3"
    by simp
next
  show "\<forall>s \<in> {POWER_G3S5, POWER_S5S3, POWER_S0S3, POWER_S3S5, POWER_S5G3}.
      fst (power_handle_state cfg e s w) \<noteq> s"
    using transient_states_other_than_S3S0_advance [of cfg e w]
    by (auto simp del: power_handle_state.simps)
next
  show "fst (wait_signals_at e
           (now (snd (power_seq_run cfg e False (s3s0_power_seq cfg) w)) +
            (if sys_reset_asserted w then 10 else 0))
           (IN_PGOOD_S0 cfg)) = EC_SUCCESS \<longrightarrow>
    fst (power_handle_state cfg e POWER_S3S0 w) = POWER_S0"
    using handler_S3S0_on_pgood [of e cfg w] by blast
qed


theorem transient_states_resolve_witness:
  "fst (power_handle_state cfg_v2 (charger_env (\<lambda>t. True) (\<lambda>t. False)) POWER_G3S5 boot_world)
     = POWER_G3 \<and>
   fst (power_handle_state cfg_v2 (charger_env (\<lambda>t. t < 250) (\<lambda>t. False)) POWER_G3S5 boot_world)
     = POWER_S5 \<and>
   fst (power_handle_state cfg_v2 (calm_env (\<lambda>t. 15)) POWER_S5S3 boot_world) = POWER_S3 \<and>
   fst (power_handle_state cfg_v2 (calm_env (\<lambda>t. 15)) POWER_S0S3 boot_world) = POWER_S3S0 \<and>
   fst (power_handle_state cfg_v2 (calm_env (\<lambda>t. 15)) POWER_S3S5 boot_world) \<noteq> POWER_S3S5 \<and>
   fst (power_handle_state cfg_v2 (calm_env (\<lambda>t. 15)) POWER_S3S0
          (boot_world\<lparr>sys_reset_asserted := True\<rparr>)) = POWER_S0"
proof -
  let ?e1 = "charger_env (\<lambda>t. True) (\<lambda>t. False)"
  let ?e2 = "charger_env (\<lambda>t. t < 250) (\<lambda>t. False)"
  let ?e = "calm_env (\<lambda>t. 15)"
  have n: "now boot_world = 0"
    by (simp add: boot_world_def)
  have h1: "\<forall>k \<le> 40. charge_prevent_power_on_at ?e1 (now boot_world + 100 * k) 0"
    by (simp add: charger_env_def)
  have h2: "(3::nat) \<le> 40 \<and> \<not> charge_prevent_power_on_at ?e2 (now boot_world + 100 * 3) 0 \<and>
      (\<forall>j < 3. charge_prevent_power_on_at ?e2 (now boot_world + 100 * j) 0)"
    by (simp add: charger_env_def n)
  have h3: "\<not> charge_want_shutdown_at ?e2 (now boot_world + 100 * 3)"
    by (simp add: charger_env_def calm_env_def)
  have h4: "fst (wait_signals_at ?e t m) = EC_SUCCESS" for t m
    by (simp add: calm_env_def)
  have h5: "\<exists>p \<in> set (check_points ?e 20 (hook_notify HOOK_CHIPSET_SUSPEND boot_world)).
      run_signal_reasserted cfg_v2 ?e p"
    by code_simp
  from transient_states_resolve [of ?e1 boot_world cfg_v2] h1
  have 1: "fst (power_handle_state cfg_v2 ?e1 POWER_G3S5 boot_world) = POWER_G3"
    by blast
  from transient_states_resolve [of ?e2 boot_world cfg_v2] h2
  have "fst (power_handle_state cfg_v2 ?e2 POWER_G3S5 boot_world) =
        (if charge_want_shutdown_at ?e2 (now boot_world + 100 * 3) then POWER_G3 else POWER_S5)"
    by blast
  with h3 have 2: "fst (power_handle_state cfg_v2 ?e2 POWER_G3S5 boot_world) = POWER_S5"
    by (simp only: if_False)
  from transient_states_resolve [of ?e boot_world cfg_v2] h4
  have 3: "fst (power_handle_state cfg_v2 ?e POWER_S5S3 boot_world) = POWER_S3"
    by (simp only: if_True simp_thms)
  from transient_states_resolve [of ?e boot_world cfg_v2] h5
  have 4: "fst (power_handle_state cfg_v2 ?e POWER_S0S3 boot_world) = POWER_S3S0"
    by (simp only: if_True simp_thms)
  from transient_states_resolve [of ?e boot_world cfg_v2]
  have 5: "fst (power_handle_state cfg_v2 ?e POWER_S3S5 boot_world) \<noteq> POWER_S3S5"
    by blast
  from transient_states_resolve [of ?e "boot_world\<lparr>sys_reset_asserted := True\<rparr>" cfg_v2] h4
  have 6: "fst (power_handle_state cfg_v2 ?e POWER_S3S0
          (boot_world\<lparr>sys_reset_asserted := True\<rparr>)) = POWER_S0"
    by (simp only: simp_thms)
  from 1 2 3 4 5 6 show ?thesis
    by (simp only: simp_thms)
qed

text \<open>
  C7, as stated, fails. In S3S0, when the wait for the S0 power-good signals times out,
  \<open>power_handle_state\<close> requests a forced shutdown and returns S3S0, the state it was
  called in, and does so again on the next round. The other transitions do not always go
  on to the state they lead to: on the same failure S5S3 turns back to S3S5, G3S5 returns
  G3 when the charger wants a shutdown, and S0S3 returns S3S0 when the run signal comes
  back during the delay after the second step.
\<close>

theorem transient_state_returns_itself:
  "fst (power_handle_state cfg_v2 pgood_timeout_env POWER_S3S0 boot_world) = POWER_S3S0 \<and>
   forcing_shutdown (snd (power_handle_state cfg_v2 pgood_timeout_env POWER_S3S0 boot_world)) \<and>
   fst (power_handle_state cfg_v2 pgood_timeout_env POWER_S3S0
          (snd (power_handle_state cfg_v2 pgood_timeout_env POWER_S3S0 boot_world))) = POWER_S3S0 \<and>
   fst (power_handle_state cfg_v2 pgood_timeout_env POWER_S5S3 boot_world) = POWER_S3S5 \<and>
   fst (power_handle_state cfg_v2 (charger_env (\<lambda>t. False) (\<lambda>t. True)) POWER_G3S5 boot_world)
     = POWER_G3 \<and>
   fst (power_handle_state cfg_v2 (calm_env (resume_at 22)) POWER_S0S3 boot_world) = POWER_S3S0"
proof -
  have "\<forall>t m. fst (wait_signals_at pgood_timeout_env t m) \<noteq> EC_SUCCESS"
    by (simp add: pgood_timeout_env_def)
  moreover
  have "fst (power_handle_state cfg_v2 (charger_env (\<lambda>t. False) (\<lambda>t. True)) POWER_G3S5 boot_world)
     = POWER_G3"
    by (subst power_handle_state.simps, subst charger_wait.simps)
       (simp add: charge_prevent_power_on_def charge_want_shutdown_def charger_env_def)
  moreover
  have "fst (power_handle_state cfg_v2 (calm_env (resume_at 22)) POWER_S0S3 boot_world)
     = POWER_S3S0"
    by code_simp
  ultimately show ?thesis
    by (simp only: handler_on_pgood_failure simp_thms)
qed

subsection \<open>The worlds along a cycle\<close>

lemma drive_Suc_fst:
  "fst (drive cfg e (Suc n) s w) =
     s # fst (drive cfg e n (fst (power_handle_state cfg e s w))
                (snd (power_handle_state cfg e s w)))"
  by (simp add: case_prod_beta del: power_handle_state.simps)

lemma drive_Suc_snd:
  "snd (drive cfg e (Suc n) s w) =
     snd (drive cfg e n (fst (power_handle_state cfg e s w))
            (snd (power_handle_state cfg e s w)))"
  by (simp add: case_prod_beta del: power_handle_state.simps)

lemma drive_fst_Cons: "\<exists>ss. fst (drive cfg e n s w) = s # ss"
  by (cases n) (simp_all add: case_prod_beta del: power_handle_state.simps)

lemma drive_butlast:
  "fst (drive cfg e n s w) = butlast (fst (drive cfg e (Suc n) s w))"
proof (induction n arbitrary: s w)
  case 0
  show ?case by (simp add: case_prod_beta del: power_handle_state.simps)
next
  case (Suc n)
  let ?s = "fst (power_handle_state cfg e s w)"
  let ?w = "snd (power_handle_state cfg e s w)"
  obtain ss where ss: "fst (drive cfg e (Suc n) ?s ?w) = ?s # ss"
    using drive_fst_Cons by blast
  have "fst (drive cfg e (Suc n) s w) = s # fst (drive cfg e n ?s ?w)"
    by (rule drive_Suc_fst)
  also have "\<dots> = s # butlast (fst (drive cfg e (Suc n) ?s ?w))"
    by (simp only: Suc.IH [of ?s ?w])
  also have "\<dots> = butlast (s # fst (drive cfg e (Suc n) ?s ?w))"
    by (simp add: ss del: drive.simps power_handle_state.simps)
  also have "\<dots> = butlast (fst (drive cfg e (Suc (Suc n)) s w))"
    by (simp only: drive_Suc_fst [of cfg e "Suc n" s w])
  finally show ?case .
qed

lemma steady_handler_world [simp]:
  "snd (power_handle_state cfg e POWER_S5 w) = w"
  "snd (power_handle_state cfg e POWER_S3 w) = w"
  "snd (power_handle_state cfg e POWER_S5G3 w) = w"
  "snd (power_handle_state cfg e POWER_G3 w) = w"
  by simp_all

lemma power_down_world:
  assumes "forcing_shutdown w"
  shows "snd (drive cfg e 6 POWER_S0 w) =
     snd (power_handle_state cfg e POWER_S3S5 (snd (power_handle_state cfg e POWER_S0S3 w)))"
proof -
  define w2 where "w2 = snd (power_handle_state cfg e POWER_S0S3 w)"
  define w4 where "w4 = snd (power_handle_state cfg e POWER_S3S5 w2)"
  have h1: "power_handle_state cfg e POWER_S0 w = (POWER_S0S3, w)"
    using assms by simp
  have h2: "power_handle_state cfg e POWER_S0S3 w = (POWER_S3, w2)" and f2: "forcing_shutdown w2"
    using handler_S0S3_forced [OF assms, of cfg e] by (simp_all add: w2_def prod_eq_iff)
  have h3: "power_handle_state cfg e POWER_S3 w2 = (POWER_S3S5, w2)"
    using f2 by simp
  have h4: "power_handle_state cfg e POWER_S3S5 w2 = (POWER_S5, w4)"
    by (simp add: w4_def Let_def)
  have f4: "forcing_shutdown w4"
    unfolding w4_def by (rule handler_keeps_forcing) (use f2 in simp_all)
  have h5: "power_handle_state cfg e POWER_S5 w4 = (POWER_S5G3, w4)"
    using f4 by simp
  have h6: "power_handle_state cfg e POWER_S5G3 w4 = (POWER_G3, w4)"
    by simp
  have d0: "drive cfg e 0 s v = ([s], v)" for s v by simp
  have n6: "(6::nat) = Suc (Suc (Suc (Suc (Suc (Suc 0)))))" by simp
  have "drive cfg e 6 POWER_S0 w =
      ([POWER_S0, POWER_S0S3, POWER_S3, POWER_S3S5, POWER_S5, POWER_S5G3, POWER_G3], w4)"
    unfolding n6
    by (simp only: drive_step [OF h1] drive_step [OF h2] drive_step [OF h3]
        drive_step [OF h4] drive_step [OF h5] drive_step [OF h6] d0 fst_conv snd_conv)
  then show ?thesis
    by (simp add: w4_def w2_def del: power_handle_state.simps)
qed

lemma power_up_unfold:
  assumes "fst (drive cfg e 4 POWER_G3S5 v) =
             [POWER_G3S5, POWER_S5, POWER_S5S3, POWER_S3, POWER_S3S0]"
  shows "fst (power_handle_state cfg e POWER_G3S5 v) = POWER_S5"
    and "fst (power_handle_state cfg e POWER_S5 (snd (power_handle_state cfg e POWER_G3S5 v)))
           = POWER_S5S3"
    and "fst (power_handle_state cfg e POWER_S5S3 (snd (power_handle_state cfg e POWER_G3S5 v)))
           = POWER_S3"
    and "fst (power_handle_state cfg e POWER_S3
           (snd (power_handle_state cfg e POWER_S5S3 (snd (power_handle_state cfg e POWER_G3S5 v)))))
           = POWER_S3S0"
    and "drive cfg e 5 POWER_G3S5 v =
           ([POWER_G3S5, POWER_S5, POWER_S5S3, POWER_S3, POWER_S3S0,
             fst (power_handle_state cfg e POWER_S3S0
               (snd (power_handle_state cfg e POWER_S5S3
                  (snd (power_handle_state cfg e POWER_G3S5 v)))))],
            snd (power_handle_state cfg e POWER_S3S0
               (snd (power_handle_state cfg e POWER_S5S3
                  (snd (power_handle_state cfg e POWER_G3S5 v))))))"
proof -
  define v1 where "v1 = snd (power_handle_state cfg e POWER_G3S5 v)"
  define v3 where "v3 = snd (power_handle_state cfg e POWER_S5S3 v1)"
  define s1 where "s1 = fst (power_handle_state cfg e POWER_G3S5 v)"
  define s2 where "s2 = fst (power_handle_state cfg e POWER_S5 v1)"
  define s3 where "s3 = fst (power_handle_state cfg e POWER_S5S3 v1)"
  define s4 where "s4 = fst (power_handle_state cfg e POWER_S3 v3)"
  have n4: "(4::nat) = Suc (Suc (Suc (Suc 0)))" by simp
  have n5: "(5::nat) = Suc (Suc (Suc (Suc (Suc 0))))" by simp
  from assms have a1: "fst (drive cfg e (Suc (Suc (Suc 0))) s1 v1) =
      [POWER_S5, POWER_S5S3, POWER_S3, POWER_S3S0]"
    unfolding n4 by (simp add: drive_Suc_fst [of cfg e _ POWER_G3S5 v] s1_def v1_def
        del: drive.simps power_handle_state.simps)
  moreover obtain ss1 where "fst (drive cfg e (Suc (Suc (Suc 0))) s1 v1) = s1 # ss1"
    using drive_fst_Cons by blast
  ultimately have e1: "s1 = POWER_S5" by simp
  from a1 have a2: "fst (drive cfg e (Suc (Suc 0)) s2 v1) = [POWER_S5S3, POWER_S3, POWER_S3S0]"
    unfolding e1 by (simp add: drive_Suc_fst [of cfg e _ POWER_S5 v1] s2_def
        del: drive.simps power_handle_state.simps)
  moreover obtain ss2 where "fst (drive cfg e (Suc (Suc 0)) s2 v1) = s2 # ss2"
    using drive_fst_Cons by blast
  ultimately have e2: "s2 = POWER_S5S3" by simp
  from a2 have a3: "fst (drive cfg e (Suc 0) s3 v3) = [POWER_S3, POWER_S3S0]"
    unfolding e2 by (simp add: drive_Suc_fst [of cfg e _ POWER_S5S3 v1] s3_def v3_def
        del: drive.simps power_handle_state.simps)
  moreover obtain ss3 where "fst (drive cfg e (Suc 0) s3 v3) = s3 # ss3"
    using drive_fst_Cons by blast
  ultimately have e3: "s3 = POWER_S3" by simp
  from a3 have a4: "fst (drive cfg e 0 s4 v3) = [POWER_S3S0]"
    unfolding e3 by (simp add: drive_Suc_fst [of cfg e _ POWER_S3 v3] s4_def
        del: drive.simps power_handle_state.simps)
  then have e4: "s4 = POWER_S3S0" by simp
  show "fst (power_handle_state cfg e POWER_G3S5 v) = POWER_S5"
    using e1 by (simp only: s1_def)
  show "fst (power_handle_state cfg e POWER_S5 (snd (power_handle_state cfg e POWER_G3S5 v)))
           = POWER_S5S3"
    using e2 by (simp only: s2_def v1_def)
  show "fst (power_handle_state cfg e POWER_S5S3 (snd (power_handle_state cfg e POWER_G3S5 v)))
           = POWER_S3"
    using e3 by (simp only: s3_def v1_def)
  show "fst (power_handle_state cfg e POWER_S3
           (snd (power_handle_state cfg e POWER_S5S3 (snd (power_handle_state cfg e POWER_G3S5 v)))))
           = POWER_S3S0"
    using e4 by (simp only: s4_def v3_def v1_def)
  have h1: "power_handle_state cfg e POWER_G3S5 v = (POWER_S5, v1)"
    using e1 by (simp add: s1_def v1_def prod_eq_iff del: power_handle_state.simps)
  have h2: "power_handle_state cfg e POWER_S5 v1 = (POWER_S5S3, v1)"
    using e2 by (simp add: s2_def prod_eq_iff del: power_handle_state.simps)
  have h3: "power_handle_state cfg e POWER_S5S3 v1 = (POWER_S3, v3)"
    using e3 by (simp add: s3_def v3_def prod_eq_iff del: power_handle_state.simps)
  have h4: "power_handle_state cfg e POWER_S3 v3 = (POWER_S3S0, v3)"
    using e4 by (simp add: s4_def prod_eq_iff del: power_handle_state.simps)
  have h5: "power_handle_state cfg e POWER_S3S0 v3 =
      (fst (power_handle_state cfg e POWER_S3S0 v3), snd (power_handle_state cfg e POWER_S3S0 v3))"
    by (rule prod.collapse [symmetric])
  have d0: "drive cfg e 0 s u = ([s], u)" for s u by simp
  have "drive cfg e 5 POWER_G3S5 v =
      ([POWER_G3S5, POWER_S5, POWER_S5S3, POWER_S3, POWER_S3S0,
        fst (power_handle_state cfg e POWER_S3S0 v3)],
       snd (power_handle_state cfg e POWER_S3S0 v3))"
    unfolding n5
    by (simp only: drive_step [OF h1] drive_step [OF h2] drive_step [OF h3]
        drive_step [OF h4] drive_step [OF h5] d0 fst_conv snd_conv)
  then show "drive cfg e 5 POWER_G3S5 v =
           ([POWER_G3S5, POWER_S5, POWER_S5S3, POWER_S3, POWER_S3S0,
             fst (power_handle_state cfg e POWER_S3S0
               (snd (power_handle_state cfg e POWER_S5S3
                  (snd (power_handle_state cfg e POWER_G3S5 v)))))],
            snd (power_handle_state cfg e POWER_S3S0
               (snd (power_handle_state cfg e POWER_S5S3
                  (snd (power_handle_state cfg e POWER_G3S5 v))))))"
    by (simp only: v3_def v1_def)
qed


subsection \<open>A power-up that no request disturbs\<close>

lemma pass_time_quiet_after:
  "\<forall>t. t0 < t \<longrightarrow> \<not> shutdown_request_at e t \<Longrightarrow> t0 \<le> now w \<Longrightarrow>
   forcing_shutdown (pass_time e n w) = forcing_shutdown w"
  by (auto simp: pass_time_forcing_shutdown)

lemma power_seq_run_quiet_after:
  "\<forall>t. t0 < t \<longrightarrow> \<not> shutdown_request_at e t \<Longrightarrow> t0 \<le> now w \<Longrightarrow>
   forcing_shutdown (snd (power_seq_run cfg e False ops w)) = forcing_shutdown w"
proof (induction ops arbitrary: w)
  case Nil
  show ?case by simp
next
  case (Cons op ops)
  let ?w1 = "gpio_set_level (signal op) (level op) w"
  let ?w2 = "msleep e (unat (delay op)) ?w1"
  from Cons.prems have 1: "t0 \<le> now ?w1" and 2: "t0 \<le> now ?w2"
    by simp_all
  have f2: "forcing_shutdown ?w2 = forcing_shutdown w"
    using Cons.prems by (simp add: msleep_def pass_time_quiet_after)
  from Cons.IH [OF Cons.prems(1) 1] Cons.IH [OF Cons.prems(1) 2] f2 show ?case
    by (simp add: Let_def)
qed

lemma power_wait_signals_quiet_after:
  "\<forall>t. t0 < t \<longrightarrow> \<not> shutdown_request_at e t \<Longrightarrow> t0 \<le> now w \<Longrightarrow>
   forcing_shutdown (snd (power_wait_signals e m w)) = forcing_shutdown w"
  by (simp add: power_wait_signals_def case_prod_beta pass_time_quiet_after)

lemma handler_now_mono:
  "now w \<le> now (snd (power_handle_state cfg e s w))"
proof (cases "s = POWER_G3S5")
  case False
  then show ?thesis
    using keeps_requests_handler [of s e w cfg] by (simp add: keeps_requests_iff)
next
  case True
  let ?w1 = "w\<lparr>forcing_shutdown := False\<rparr>"
  have "now ?w1 \<le> now (snd (charger_wait e 0 ?w1))"
    using keeps_requests_charger_wait [of e ?w1 0] by (simp add: keeps_requests_iff)
  then show ?thesis
    unfolding True by (simp add: Let_def case_prod_beta)
qed

lemma handler_S5S3_quiet_after:
  assumes "\<forall>t. t0 < t \<longrightarrow> \<not> shutdown_request_at e t" and "t0 \<le> now w"
    and "fst (power_handle_state cfg e POWER_S5S3 w) = POWER_S3"
  shows "forcing_shutdown (snd (power_handle_state cfg e POWER_S5S3 w)) = forcing_shutdown w"
proof -
  let ?w1 = "snd (power_seq_run cfg e False (s5s3_power_seq cfg) w)"
  let ?w2 = "?w1\<lparr>sys_reset_asserted := True\<rparr>"
  have n1: "t0 \<le> now ?w2"
    using keeps_requests_power_seq_run [of e w cfg False "s5s3_power_seq cfg"] assms(2)
    by (simp add: keeps_requests_iff)
  have f1: "forcing_shutdown ?w2 = forcing_shutdown w"
    using assms(1,2) by (simp add: power_seq_run_quiet_after)
  have f3: "forcing_shutdown (snd (power_wait_signals e (IN_PGOOD_S3 cfg) ?w2)) = forcing_shutdown w"
    using power_wait_signals_quiet_after [OF assms(1) n1] f1 by simp
  from assms(3) have "fst (power_wait_signals e (IN_PGOOD_S3 cfg) ?w2) = EC_SUCCESS"
    by (simp add: Let_def case_prod_beta split: if_splits)
  with f3 show ?thesis
    by (simp add: Let_def case_prod_beta)
qed

lemma handler_S3S0_quiet_after:
  assumes "\<forall>t. t0 < t \<longrightarrow> \<not> shutdown_request_at e t" and "t0 \<le> now w"
    and "fst (power_handle_state cfg e POWER_S3S0 w) = POWER_S0"
  shows "forcing_shutdown (snd (power_handle_state cfg e POWER_S3S0 w)) = forcing_shutdown w"
proof -
  let ?w1 = "snd (power_seq_run cfg e False (s3s0_power_seq cfg) w)"
  let ?w2 = "if sys_reset_asserted ?w1
             then (gpio_set_level GPIO_SYS_RST_L 1 (msleep e 10 ?w1))\<lparr>sys_reset_asserted := False\<rparr>
             else ?w1"
  have n1: "t0 \<le> now ?w1"
    using keeps_requests_power_seq_run [of e w cfg False "s3s0_power_seq cfg"] assms(2)
    by (simp add: keeps_requests_iff)
  then have n2: "t0 \<le> now ?w2" by simp
  have f1: "forcing_shutdown ?w1 = forcing_shutdown w"
    using assms(1,2) by (simp add: power_seq_run_quiet_after)
  have f2: "forcing_shutdown ?w2 = forcing_shutdown w"
    using f1 assms(1) n1 by (simp add: msleep_def pass_time_quiet_after)
  have f3: "forcing_shutdown (snd (power_wait_signals e (IN_PGOOD_S0 cfg) ?w2)) = forcing_shutdown w"
    using power_wait_signals_quiet_after [OF assms(1) n2] f2 by simp
  from assms(3) have "fst (power_wait_signals e (IN_PGOOD_S0 cfg) ?w2) = EC_SUCCESS"
    by (simp add: Let_def case_prod_beta split: if_splits)
  with f3 show ?thesis
    by (simp add: Let_def case_prod_beta)
qed

lemma power_up_restores:
  assumes path: "fst (drive cfg e 4 POWER_G3S5 v) =
             [POWER_G3S5, POWER_S5, POWER_S5S3, POWER_S3, POWER_S3S0]"
    and pg: "\<forall>t m. fst (wait_signals_at e t m) = EC_SUCCESS"
    and quiet: "\<forall>t. now v < t \<longrightarrow> \<not> shutdown_request_at e t"
  shows "fst (drive cfg e 5 POWER_G3S5 v) =
           [POWER_G3S5, POWER_S5, POWER_S5S3, POWER_S3, POWER_S3S0, POWER_S0] \<and>
         \<not> forcing_shutdown (snd (drive cfg e 5 POWER_G3S5 v)) \<and>
         \<not> sys_reset_asserted (snd (drive cfg e 5 POWER_G3S5 v))"
proof -
  define v1 where "v1 = snd (power_handle_state cfg e POWER_G3S5 v)"
  define v3 where "v3 = snd (power_handle_state cfg e POWER_S5S3 v1)"
  define v5 where "v5 = snd (power_handle_state cfg e POWER_S3S0 v3)"
  note u = power_up_unfold [OF path, folded v1_def, folded v3_def, folded v5_def]
  have n1: "now v \<le> now v1"
    unfolding v1_def by (rule handler_now_mono)
  have n3: "now v \<le> now v3"
    using n1 handler_now_mono [of v1 cfg e POWER_S5S3] by (simp add: v3_def)
  have s5: "fst (power_handle_state cfg e POWER_S3S0 v3) = POWER_S0"
    by (rule handler_S3S0_on_pgood) (simp add: pg)
  from handler_G3S5_forcing_shutdown [of cfg e v] u(1)
  have "forcing_shutdown v1 = (\<exists>t. now v < t \<and> t \<le> now v1 \<and> shutdown_request_at e t)"
    by (simp add: v1_def del: power_handle_state.simps)
  with quiet have f1: "\<not> forcing_shutdown v1" by blast
  have f3: "\<not> forcing_shutdown v3"
    using handler_S5S3_quiet_after [OF quiet n1 u(3)] f1
    by (simp add: v3_def del: power_handle_state.simps)
  have f5: "\<not> forcing_shutdown v5"
    using handler_S3S0_quiet_after [OF quiet n3 s5] f3
    by (simp add: v5_def del: power_handle_state.simps)
  have r5: "\<not> sys_reset_asserted v5"
    unfolding v5_def by (rule handler_S3S0_releases_reset)
  from u(5) s5 f5 r5 show ?thesis
    by (simp del: power_handle_state.simps)
qed


subsection \<open>A full cycle, there and back\<close>

text \<open>
  C8, as amended. The machine is in S0 and the power button is held until the deferred
  \<open>force_shutdown\<close> fires; the task's loop then takes the machine through S0S3, S3,
  S3S5, S5 and S5G3 to G3, with \<open>forcing_shutdown\<close> still set there. On the power-on
  request the common code moves it to G3S5, and the machine is driven on through S5, S5S3
  and S3 into S3S0. If the power-good signals hold throughout, so that the waits for them
  succeed, and no other task requests a shutdown once the power-up has begun, the cycle
  ends in S0 with \<open>forcing_shutdown\<close> and \<open>sys_reset_asserted\<close> both clear.
\<close>

theorem full_cycle_restores_flags:
  assumes "fst (drive cfg e 4 POWER_G3S5
                  (chipset_exit_hard_off (snd (drive cfg e 6 POWER_S0 (force_shutdown w0))))) =
             [POWER_G3S5, POWER_S5, POWER_S5S3, POWER_S3, POWER_S3S0]"
    and "\<forall>t m. fst (wait_signals_at e t m) = EC_SUCCESS"
    and "\<forall>t. now (snd (drive cfg e 6 POWER_S0 (force_shutdown w0))) < t \<longrightarrow>
             \<not> shutdown_request_at e t"
  shows "fst (drive cfg e 6 POWER_S0 (force_shutdown w0)) =
           [POWER_S0, POWER_S0S3, POWER_S3, POWER_S3S5, POWER_S5, POWER_S5G3, POWER_G3] \<and>
         forcing_shutdown (snd (drive cfg e 6 POWER_S0 (force_shutdown w0))) \<and>
         fst (drive cfg e 5 POWER_G3S5
                (chipset_exit_hard_off (snd (drive cfg e 6 POWER_S0 (force_shutdown w0))))) =
           [POWER_G3S5, POWER_S5, POWER_S5S3, POWER_S3, POWER_S3S0, POWER_S0] \<and>
         \<not> forcing_shutdown (snd (drive cfg e 5 POWER_G3S5
                (chipset_exit_hard_off (snd (drive cfg e 6 POWER_S0 (force_shutdown w0)))))) \<and>
         \<not> sys_reset_asserted (snd (drive cfg e 5 POWER_G3S5
                (chipset_exit_hard_off (snd (drive cfg e 6 POWER_S0 (force_shutdown w0))))))"
proof -
  let ?v = "chipset_exit_hard_off (snd (drive cfg e 6 POWER_S0 (force_shutdown w0)))"
  have "forcing_shutdown (force_shutdown w0)" by simp
  from power_down_path [OF this, of cfg e]
  have down: "fst (drive cfg e 6 POWER_S0 (force_shutdown w0)) =
           [POWER_S0, POWER_S0S3, POWER_S3, POWER_S3S5, POWER_S5, POWER_S5G3, POWER_G3] \<and>
         forcing_shutdown (snd (drive cfg e 6 POWER_S0 (force_shutdown w0)))" .
  have quiet: "\<forall>t. now ?v < t \<longrightarrow> \<not> shutdown_request_at e t"
    using assms(3) by simp
  from power_up_restores [OF assms(1) assms(2) quiet] down show ?thesis
    by blast
qed

theorem full_cycle_restores_flags_witness:
  "fst (drive cfg_v0 (calm_env (\<lambda>t. 15)) 4 POWER_G3S5
          (chipset_exit_hard_off
             (snd (drive cfg_v0 (calm_env (\<lambda>t. 15)) 6 POWER_S0 (force_shutdown boot_world))))) =
     [POWER_G3S5, POWER_S5, POWER_S5S3, POWER_S3, POWER_S3S0] \<and>
   fst (drive cfg_v0 (calm_env (\<lambda>t. 15)) 6 POWER_S0 (force_shutdown boot_world)) =
     [POWER_S0, POWER_S0S3, POWER_S3, POWER_S3S5, POWER_S5, POWER_S5G3, POWER_G3] \<and>
   forcing_shutdown (snd (drive cfg_v0 (calm_env (\<lambda>t. 15)) 6 POWER_S0 (force_shutdown boot_world))) \<and>
   fst (drive cfg_v0 (calm_env (\<lambda>t. 15)) 5 POWER_G3S5
          (chipset_exit_hard_off
             (snd (drive cfg_v0 (calm_env (\<lambda>t. 15)) 6 POWER_S0 (force_shutdown boot_world))))) =
     [POWER_G3S5, POWER_S5, POWER_S5S3, POWER_S3, POWER_S3S0, POWER_S0] \<and>
   \<not> forcing_shutdown (snd (drive cfg_v0 (calm_env (\<lambda>t. 15)) 5 POWER_G3S5
          (chipset_exit_hard_off
             (snd (drive cfg_v0 (calm_env (\<lambda>t. 15)) 6 POWER_S0 (force_shutdown boot_world)))))) \<and>
   \<not> sys_reset_asserted (snd (drive cfg_v0 (calm_env (\<lambda>t. 15)) 5 POWER_G3S5
          (chipset_exit_hard_off
             (snd (drive cfg_v0 (calm_env (\<lambda>t. 15)) 6 POWER_S0 (force_shutdown boot_world))))))"
proof -
  let ?e = "calm_env (\<lambda>t. 15)"
  let ?v = "chipset_exit_hard_off (snd (drive cfg_v0 ?e 6 POWER_S0 (force_shutdown boot_world)))"
  have m: "IN_PGOOD_S3 cfg_v0 = 1" "IN_SUSPEND_DEASSERTED cfg_v0 = 8"
    by (simp_all add: IN_PGOOD_S3_def IN_PGOOD_PP5000_def IN_SUSPEND_DEASSERTED_def
        POWER_SIGNAL_MASK_def cfg_v0_def)
  have "fst (drive cfg_v0 ?e 5 POWER_G3S5 ?v) =
           [POWER_G3S5, POWER_S5, POWER_S5S3, POWER_S3, POWER_S3S0, POWER_S0] \<and>
         sys_reset_asserted (snd (drive cfg_v0 ?e 3 POWER_G3S5 ?v)) \<and>
         \<not> forcing_shutdown (snd (drive cfg_v0 ?e 5 POWER_G3S5 ?v)) \<and>
         \<not> sys_reset_asserted (snd (drive cfg_v0 ?e 5 POWER_G3S5 ?v))"
    by (rule power_up_path) (simp_all add: calm_env_def m)
  then have p5: "fst (drive cfg_v0 ?e 5 POWER_G3S5 ?v) =
           [POWER_G3S5, POWER_S5, POWER_S5S3, POWER_S3, POWER_S3S0, POWER_S0]"
    by blast
  have "fst (drive cfg_v0 ?e 4 POWER_G3S5 ?v) = butlast (fst (drive cfg_v0 ?e 5 POWER_G3S5 ?v))"
    using drive_butlast [of cfg_v0 ?e 4 POWER_G3S5 ?v] by (simp del: drive.simps)
  then have h1: "fst (drive cfg_v0 ?e 4 POWER_G3S5 ?v) =
      [POWER_G3S5, POWER_S5, POWER_S5S3, POWER_S3, POWER_S3S0]"
    by (simp only: p5) simp
  have h2: "\<forall>t m. fst (wait_signals_at ?e t m) = EC_SUCCESS"
    by (simp add: calm_env_def)
  have h3: "\<forall>t. now (snd (drive cfg_v0 ?e 6 POWER_S0 (force_shutdown boot_world))) < t \<longrightarrow>
             \<not> shutdown_request_at ?e t"
    by (simp add: calm_env_def)
  from full_cycle_restores_flags [OF h1 h2 h3] h1 show ?thesis
    by blast
qed

text \<open>
  C8, as stated, fails. With the power-good signals up all along and every wait for them
  succeeding, the machine goes through the whole cycle and ends in S0; but another task
  requests a shutdown while S3S0 holds the reset line for its 10 ms, and the cycle ends
  with \<open>forcing_shutdown\<close> set.
\<close>

theorem full_cycle_leaves_flag_set:
  "signals_at (late_request_env 90) = (\<lambda>t. 15) \<and>
   wait_signals_at (late_request_env 90) = (\<lambda>t m. (EC_SUCCESS, 0)) \<and>
   fst (drive cfg_v2 (late_request_env 90) 6 POWER_S0 (force_shutdown boot_world)) =
     [POWER_S0, POWER_S0S3, POWER_S3, POWER_S3S5, POWER_S5, POWER_S5G3, POWER_G3] \<and>
   fst (drive cfg_v2 (late_request_env 90) 5 POWER_G3S5
          (chipset_exit_hard_off
             (snd (drive cfg_v2 (late_request_env 90) 6 POWER_S0 (force_shutdown boot_world))))) =
     [POWER_G3S5, POWER_S5, POWER_S5S3, POWER_S3, POWER_S3S0, POWER_S0] \<and>
   forcing_shutdown (snd (drive cfg_v2 (late_request_env 90) 5 POWER_G3S5
          (chipset_exit_hard_off
             (snd (drive cfg_v2 (late_request_env 90) 6 POWER_S0 (force_shutdown boot_world))))))"
proof -
  define e where "e = late_request_env 90"
  define w0 where "w0 = force_shutdown boot_world"
  define v0 where "v0 = chipset_exit_hard_off
      (snd (power_handle_state cfg_v2 e POWER_S3S5 (snd (power_handle_state cfg_v2 e POWER_S0S3 w0))))"
  define v1 where "v1 = snd (power_handle_state cfg_v2 e POWER_G3S5 v0)"
  define v3 where "v3 = snd (power_handle_state cfg_v2 e POWER_S5S3 v1)"
  have env: "signals_at e = (\<lambda>t. 15)" "wait_signals_at e = (\<lambda>t m. (EC_SUCCESS, 0))"
    by (simp_all add: e_def late_request_env_def calm_env_def)
  have f0: "forcing_shutdown w0"
    by (simp add: w0_def)
  from power_down_path [OF f0, of cfg_v2 e]
  have down: "fst (drive cfg_v2 e 6 POWER_S0 w0) =
     [POWER_S0, POWER_S0S3, POWER_S3, POWER_S3S5, POWER_S5, POWER_S5G3, POWER_G3]"
    by blast
  have v: "chipset_exit_hard_off (snd (drive cfg_v2 e 6 POWER_S0 w0)) = v0"
    by (simp only: power_down_world [OF f0] v0_def)
  have k1: "fst (power_handle_state cfg_v2 e POWER_G3S5 v0) = POWER_S5"
    unfolding v0_def w0_def e_def by code_simp
  have k2: "fst (power_handle_state cfg_v2 e POWER_S5 v1) = POWER_S5S3"
    unfolding v1_def v0_def w0_def e_def by code_simp
  have k3: "fst (power_handle_state cfg_v2 e POWER_S5S3 v1) = POWER_S3"
    unfolding v1_def v0_def w0_def e_def by code_simp
  have k4: "fst (power_handle_state cfg_v2 e POWER_S3 v3) = POWER_S3S0"
    unfolding v3_def v1_def v0_def w0_def e_def by code_simp
  have k5: "fst (power_handle_state cfg_v2 e POWER_S3S0 v3) = POWER_S0"
    unfolding v3_def v1_def v0_def w0_def e_def by code_simp
  have k6: "forcing_shutdown (snd (power_handle_state cfg_v2 e POWER_S3S0 v3))"
    unfolding v3_def v1_def v0_def w0_def e_def by code_simp
  have h1: "power_handle_state cfg_v2 e POWER_G3S5 v0 = (POWER_S5, v1)"
    using k1 by (simp add: v1_def prod_eq_iff del: power_handle_state.simps)
  have h2: "power_handle_state cfg_v2 e POWER_S5 v1 = (POWER_S5S3, v1)"
    using k2 by (simp add: prod_eq_iff del: power_handle_state.simps)
  have h3: "power_handle_state cfg_v2 e POWER_S5S3 v1 = (POWER_S3, v3)"
    using k3 by (simp add: v3_def prod_eq_iff del: power_handle_state.simps)
  have h4: "power_handle_state cfg_v2 e POWER_S3 v3 = (POWER_S3S0, v3)"
    using k4 by (simp add: prod_eq_iff del: power_handle_state.simps)
  have h5: "power_handle_state cfg_v2 e POWER_S3S0 v3 =
      (POWER_S0, snd (power_handle_state cfg_v2 e POWER_S3S0 v3))"
    using k5 by (simp add: prod_eq_iff del: power_handle_state.simps)
  have d0: "drive cfg_v2 e 0 s u = ([s], u)" for s u by simp
  have n5: "(5::nat) = Suc (Suc (Suc (Suc (Suc 0))))" by simp
  have d5: "drive cfg_v2 e 5 POWER_G3S5 v0 =
      ([POWER_G3S5, POWER_S5, POWER_S5S3, POWER_S3, POWER_S3S0, POWER_S0],
       snd (power_handle_state cfg_v2 e POWER_S3S0 v3))"
    unfolding n5
    by (simp only: drive_step [OF h1] drive_step [OF h2] drive_step [OF h3]
        drive_step [OF h4] drive_step [OF h5] d0 fst_conv snd_conv)
  from env down d5 k6 show ?thesis
    unfolding v e_def [symmetric] w0_def [symmetric]
    by (simp del: power_handle_state.simps drive.simps)
qed

end
